theory Spec2Isabelle
  imports Main "HOL-Library.Word"
begin

unbundle bit_operations_syntax

section \<open>The token codec of services/token/token-router.ts\<close>

text \<open>
  The two handlers of the token router, \<^verbatim>\<open>POST /token/encode\<close> and
  \<^verbatim>\<open>POST /token/decode\<close>, are embedded as the functions \<open>encode\<close> and \<open>decode\<close>.
  What the handlers call in the JavaScript runtime is modelled as follows.
  \<^item> Written out here, from their published behaviour: \<^verbatim>\<open>btoa\<close>, \<^verbatim>\<open>atob\<close>,
    \<^verbatim>\<open>Buffer.from(s, 'base64')\<close>, \<^verbatim>\<open>Buffer.from(s, 'hex')\<close>,
    \<^verbatim>\<open>buf.toString('base64' | 'hex' | 'utf8')\<close>, the UTF-8 encoding of a string,
    \<^verbatim>\<open>String.prototype.split\<close>, truthiness, and the mode of operation of
    \<^verbatim>\<open>aes-256-cbc\<close> (cipher block chaining with PKCS#7 padding).
  \<^item> Taken as parameters (the record \<open>platform\<close>): the AES-256 block permutation and its
    inverse, HMAC-SHA256, \<^verbatim>\<open>JSON.stringify\<close> and \<^verbatim>\<open>JSON.parse\<close>. A theorem that
    needs a property of one of them states it as a hypothesis (\<open>platform_ok\<close>), and
    \<open>sample_platform\<close> is a small instance on which the hypotheses hold and the
    handlers can be evaluated.
  \<^item> The two secrets of \<^verbatim>\<open>Config\<close> are a parameter too (the record \<open>config\<close>), and so
    is the value that \<^verbatim>\<open>crypto.randomBytes(16)\<close> returns in a call of encode.

  An exception is a value: a function that can throw returns \<open>exn + 'a\<close>, and a handler
  ends in an \<open>outcome\<close>. Decode returns, with its outcome, the log of the calls it has
  made.
\<close>

subsection \<open>Bytes and strings\<close>

type_synonym byte = "8 word"

text \<open>A Buffer is its list of bytes. A JavaScript string is its list of UTF-16 code
  units (numbers below 65536).\<close>

type_synonym buffer = "byte list"
type_synonym jsstring = "nat list"

definition js :: "string \<Rightarrow> jsstring" where
  "js s = map of_char s"

text \<open>What a handler can throw. The names are those of the runtime.\<close>

datatype exn =
    InvalidCharacterError
  | TypeError
  | SyntaxError
  | ERR_CRYPTO_INVALID_IV
  | ERR_CRYPTO_INVALID_KEYLEN
  | ERR_OSSL_WRONG_FINAL_BLOCK_LENGTH
  | ERR_OSSL_BAD_DECRYPT

subsection \<open>Base64\<close>

text \<open>The base64 alphabet: the character of a six-bit value.\<close>

definition base64_char :: "nat \<Rightarrow> nat" where
  "base64_char v =
     (if v < 26 then 65 + v
      else if v < 52 then 71 + v
      else if v < 62 then v - 4
      else if v = 62 then 43
      else 47)"

text \<open>The encoder behind \<^verbatim>\<open>buf.toString('base64')\<close>, \<^verbatim>\<open>hmac.digest('base64')\<close> and
  \<^verbatim>\<open>btoa\<close>: three bytes give four characters, a last group of one or two bytes is
  padded with \<^verbatim>\<open>=\<close>.\<close>

fun base64_encode :: "nat list \<Rightarrow> jsstring" where
  "base64_encode (a # b # c # rest) =
     base64_char (a div 4) # base64_char ((a mod 4) * 16 + b div 16) #
     base64_char ((b mod 16) * 4 + c div 64) # base64_char (c mod 64) # base64_encode rest"
| "base64_encode [a, b] =
     [base64_char (a div 4), base64_char ((a mod 4) * 16 + b div 16),
      base64_char ((b mod 16) * 4), 61]"
| "base64_encode [a] = [base64_char (a div 4), base64_char ((a mod 4) * 16), 61, 61]"
| "base64_encode [] = []"

definition to_base64 :: "buffer \<Rightarrow> jsstring" where
  "to_base64 buf = base64_encode (map unat buf)"

text \<open>\<^verbatim>\<open>btoa(s)\<close> throws InvalidCharacterError when a code unit of \<open>s\<close> is above 255, and
  encodes the code units as bytes otherwise.\<close>

definition btoa :: "jsstring \<Rightarrow> exn + jsstring" where
  "btoa s = (if \<exists>c \<in> set s. 255 < c then Inl InvalidCharacterError else Inr (base64_encode s))"

text \<open>Six-bit values to bytes; the bits left over in a last group of two or three values
  are dropped, and a single left-over value gives no byte.\<close>

fun base64_groups :: "nat list \<Rightarrow> buffer" where
  "base64_groups (a # b # c # d # rest) =
     of_nat (a * 4 + b div 16) # of_nat ((b mod 16) * 16 + c div 4) #
     of_nat ((c mod 4) * 64 + d) # base64_groups rest"
| "base64_groups [a, b, c] = [of_nat (a * 4 + b div 16), of_nat ((b mod 16) * 16 + c div 4)]"
| "base64_groups [a, b] = [of_nat (a * 4 + b div 16)]"
| "base64_groups [a] = []"
| "base64_groups [] = []"

text \<open>The strict alphabet of \<^verbatim>\<open>atob\<close>.\<close>

definition base64_value :: "nat \<Rightarrow> nat option" where
  "base64_value c =
     (if 65 \<le> c \<and> c \<le> 90 then Some (c - 65)
      else if 97 \<le> c \<and> c \<le> 122 then Some (c - 71)
      else if 48 \<le> c \<and> c \<le> 57 then Some (c + 4)
      else if c = 43 then Some 62
      else if c = 47 then Some 63
      else None)"

text \<open>The table of Node's decoder (\<^verbatim>\<open>unbase64\<close>): the alphabet, and \<^verbatim>\<open>-\<close> and \<^verbatim>\<open>_\<close> of
  the URL variant as well. The decoder reads every code unit through a cast to eight
  bits.\<close>

definition unbase64 :: "nat \<Rightarrow> nat option" where
  "unbase64 c =
     (let x = c mod 256 in
      if x = 45 then Some 62 else if x = 95 then Some 63 else base64_value x)"

text \<open>\<^verbatim>\<open>Buffer.from(s, 'base64')\<close> never throws: decoding stops at the first \<^verbatim>\<open>=\<close>, and a
  character outside the table is skipped.\<close>

definition buffer_from_base64 :: "jsstring \<Rightarrow> buffer" where
  "buffer_from_base64 s =
     base64_groups (List.map_filter unbase64 (takeWhile (\<lambda>c. c mod 256 \<noteq> 61) s))"

text \<open>\<^verbatim>\<open>atob(s)\<close> is the forgiving base64 decoder: ASCII whitespace is removed; when the
  length is then a multiple of four, one or two \<^verbatim>\<open>=\<close> at the end are removed; a length
  of 1 modulo 4, or a character outside the alphabet, throws InvalidCharacterError.
  The result is the string whose code units are the decoded bytes.\<close>

definition ascii_whitespace :: "nat \<Rightarrow> bool" where
  "ascii_whitespace c = (c = 9 \<or> c = 10 \<or> c = 12 \<or> c = 13 \<or> c = 32)"

definition strip_padding :: "jsstring \<Rightarrow> jsstring" where
  "strip_padding s =
     (if length s mod 4 = 0 \<and> s \<noteq> [] \<and> last s = 61
      then (if butlast s \<noteq> [] \<and> last (butlast s) = 61 then butlast (butlast s) else butlast s)
      else s)"

definition atob :: "jsstring \<Rightarrow> exn + jsstring" where
  "atob s =
     (let d = strip_padding (filter (\<lambda>c. \<not> ascii_whitespace c) s) in
      if length d mod 4 = 1 \<or> (\<exists>c \<in> set d. base64_value c = None)
      then Inl InvalidCharacterError
      else Inr (map unat (base64_groups (map (\<lambda>c. the (base64_value c)) d))))"

subsection \<open>Hexadecimal\<close>

definition hex_digit :: "nat \<Rightarrow> nat" where
  "hex_digit v = (if v < 10 then 48 + v else 87 + v)"

text \<open>\<^verbatim>\<open>buf.toString('hex')\<close>: two lower-case digits a byte.\<close>

definition to_hex :: "buffer \<Rightarrow> jsstring" where
  "to_hex buf = concat (map (\<lambda>b. [hex_digit (unat b div 16), hex_digit (unat b mod 16)]) buf)"

definition hex_value :: "nat \<Rightarrow> nat option" where
  "hex_value c =
     (if 48 \<le> c \<and> c \<le> 57 then Some (c - 48)
      else if 97 \<le> c \<and> c \<le> 102 then Some (c - 87)
      else if 65 \<le> c \<and> c \<le> 70 then Some (c - 55)
      else None)"

text \<open>Node's \<^verbatim>\<open>unhex\<close> reads a code unit through a cast to eight bits, as its decoder of
  base64 does.\<close>

definition unhex :: "nat \<Rightarrow> nat option" where
  "unhex c = hex_value (c mod 256)"

text \<open>\<^verbatim>\<open>Buffer.from(s, 'hex')\<close> never throws: it decodes pairs of digits and stops at the
  first pair that is not two hexadecimal digits, or at a single last character.\<close>

fun buffer_from_hex :: "jsstring \<Rightarrow> buffer" where
  "buffer_from_hex (a # b # rest) =
     (case (unhex a, unhex b) of
        (Some x, Some y) \<Rightarrow> of_nat (x * 16 + y) # buffer_from_hex rest
      | _ \<Rightarrow> [])"
| "buffer_from_hex [a] = []"
| "buffer_from_hex [] = []"

subsection \<open>UTF-8\<close>

text \<open>\<^verbatim>\<open>Buffer.from(s)\<close> and \<^verbatim>\<open>cipher.update(s)\<close> turn a string into its UTF-8 bytes: a
  surrogate pair is one code point of four bytes, a surrogate alone becomes U+FFFD.\<close>

definition utf8_of_code_point :: "nat \<Rightarrow> buffer" where
  "utf8_of_code_point c =
     (if c < 128 then [of_nat c]
      else if c < 2048 then [of_nat (192 + c div 64), of_nat (128 + c mod 64)]
      else if c < 65536 then
        [of_nat (224 + c div 4096), of_nat (128 + (c div 64) mod 64), of_nat (128 + c mod 64)]
      else
        [of_nat (240 + c div 262144), of_nat (128 + (c div 4096) mod 64),
         of_nat (128 + (c div 64) mod 64), of_nat (128 + c mod 64)])"

fun utf8_bytes :: "jsstring \<Rightarrow> buffer" where
  "utf8_bytes (h # l # rest) =
     (if 55296 \<le> h \<and> h < 56320 \<and> 56320 \<le> l \<and> l < 57344
      then utf8_of_code_point (65536 + (h - 55296) * 1024 + (l - 56320)) @ utf8_bytes rest
      else if 55296 \<le> h \<and> h < 57344 then utf8_of_code_point 65533 @ utf8_bytes (l # rest)
      else utf8_of_code_point h @ utf8_bytes (l # rest))"
| "utf8_bytes [c] =
     (if 55296 \<le> c \<and> c < 57344 then utf8_of_code_point 65533 else utf8_of_code_point c)"
| "utf8_bytes [] = []"

text \<open>\<^verbatim>\<open>buf.toString()\<close> decodes UTF-8 and never throws: a byte sequence that is not
  well formed gives U+FFFD for its longest prefix that starts a well-formed sequence,
  and decoding goes on after it. For a lead byte, \<open>utf8_lead\<close> gives the number of
  continuation bytes, the range of the first one, and the bits the lead byte carries.\<close>

definition utf8_lead :: "nat \<Rightarrow> (nat \<times> nat \<times> nat \<times> nat) option" where
  "utf8_lead b =
     (if 194 \<le> b \<and> b \<le> 223 then Some (1, 128, 191, b - 192)
      else if b = 224 then Some (2, 160, 191, 0)
      else if b = 237 then Some (2, 128, 159, 13)
      else if 225 \<le> b \<and> b \<le> 239 then Some (2, 128, 191, b - 224)
      else if b = 240 then Some (3, 144, 191, 0)
      else if 241 \<le> b \<and> b \<le> 243 then Some (3, 128, 191, b - 240)
      else if b = 244 then Some (3, 128, 143, 4)
      else None)"

fun utf8_continuation :: "nat \<Rightarrow> nat \<Rightarrow> nat \<Rightarrow> buffer \<Rightarrow> nat list" where
  "utf8_continuation 0 lo hi bs = []"
| "utf8_continuation (Suc k) lo hi [] = []"
| "utf8_continuation (Suc k) lo hi (b # bs) =
     (if lo \<le> unat b \<and> unat b \<le> hi then unat b # utf8_continuation k 128 191 bs else [])"

definition code_units :: "nat \<Rightarrow> jsstring" where
  "code_units c =
     (if c < 65536 then [c]
      else [55296 + (c - 65536) div 1024, 56320 + (c - 65536) mod 1024])"

fun utf8_to_string :: "buffer \<Rightarrow> jsstring" where
  "utf8_to_string [] = []"
| "utf8_to_string (b # bs) =
     (if unat b < 128 then unat b # utf8_to_string bs
      else case utf8_lead (unat b) of
        None \<Rightarrow> 65533 # utf8_to_string bs
      | Some (need, lo, hi, bits) \<Rightarrow>
          (let cs = utf8_continuation need lo hi bs in
           if length cs = need
           then code_units (fold (\<lambda>c acc. acc * 64 + (c - 128)) cs bits)
                  @ utf8_to_string (drop need bs)
           else 65533 # utf8_to_string (drop (length cs) bs)))"

subsection \<open>The cipher aes-256-cbc\<close>

text \<open>What the platform provides and this development does not write out. The block
  functions take the 32-byte key and a 16-byte block; \<open>hmac_sha256\<close> takes the key and
  the data and returns the 32-byte digest. \<open>JSON_stringify\<close> is \<open>None\<close> when
  \<^verbatim>\<open>JSON.stringify\<close> throws (a TypeError, on a cyclic value or a BigInt), and
  \<open>JSON_parse\<close> is \<open>None\<close> when \<^verbatim>\<open>JSON.parse\<close> throws (a SyntaxError). The type \<open>'p\<close>
  is that of the values \<^verbatim>\<open>req.body\<close> can be.\<close>

record 'p platform =
  aes256_encrypt_block :: "buffer \<Rightarrow> buffer \<Rightarrow> buffer"
  aes256_decrypt_block :: "buffer \<Rightarrow> buffer \<Rightarrow> buffer"
  hmac_sha256 :: "buffer \<Rightarrow> buffer \<Rightarrow> buffer"
  JSON_stringify :: "'p \<Rightarrow> jsstring option"
  JSON_parse :: "jsstring \<Rightarrow> 'p option"

text \<open>\<^verbatim>\<open>Config.SECRET_SIGNATURE_KEY\<close> and \<^verbatim>\<open>Config.SECRET_ENCRYPTION_KEY\<close>, both strings.\<close>

record config =
  SECRET_SIGNATURE_KEY :: jsstring
  SECRET_ENCRYPTION_KEY :: jsstring

definition xor_block :: "buffer \<Rightarrow> buffer \<Rightarrow> buffer" where
  "xor_block a b = map2 (XOR) a b"

fun blocks :: "buffer \<Rightarrow> buffer list" where
  "blocks [] = []"
| "blocks (b # bs) = take 16 (b # bs) # blocks (drop 16 (b # bs))"

definition pkcs7_pad :: "buffer \<Rightarrow> buffer" where
  "pkcs7_pad bs = (let n = 16 - length bs mod 16 in bs @ replicate n (of_nat n))"

text \<open>The padding check of the last block: its last byte \<open>n\<close> is between 1 and 16 and
  the last \<open>n\<close> bytes all are \<open>n\<close>.\<close>

definition pkcs7_unpad :: "buffer \<Rightarrow> exn + buffer" where
  "pkcs7_unpad bs =
     (if bs = [] then Inl ERR_OSSL_BAD_DECRYPT
      else let n = unat (last bs) in
        if n = 0 \<or> 16 < n \<or> length bs < n \<or> drop (length bs - n) bs \<noteq> replicate n (last bs)
        then Inl ERR_OSSL_BAD_DECRYPT
        else Inr (take (length bs - n) bs))"

fun cbc_encrypt :: "(buffer \<Rightarrow> buffer) \<Rightarrow> buffer \<Rightarrow> buffer list \<Rightarrow> buffer" where
  "cbc_encrypt E prev [] = []"
| "cbc_encrypt E prev (p # ps) = (let c = E (xor_block p prev) in c @ cbc_encrypt E c ps)"

fun cbc_decrypt :: "(buffer \<Rightarrow> buffer) \<Rightarrow> buffer \<Rightarrow> buffer list \<Rightarrow> buffer" where
  "cbc_decrypt D prev [] = []"
| "cbc_decrypt D prev (c # cs) = xor_block (D c) prev @ cbc_decrypt D c cs"

text \<open>\<^verbatim>\<open>crypto.createCipheriv('aes-256-cbc', key, iv)\<close> and \<^verbatim>\<open>createDecipheriv\<close> throw
  unless the IV has 16 bytes and the key 32.\<close>

definition createCipheriv :: "buffer \<Rightarrow> buffer \<Rightarrow> exn + unit" where
  "createCipheriv key iv =
     (if length iv \<noteq> 16 then Inl ERR_CRYPTO_INVALID_IV
      else if length key \<noteq> 32 then Inl ERR_CRYPTO_INVALID_KEYLEN
      else Inr ())"

text \<open>\<^verbatim>\<open>Buffer.concat([cipher.update(data), cipher.final()])\<close>.\<close>

definition cipher_update_final :: "'p platform \<Rightarrow> buffer \<Rightarrow> buffer \<Rightarrow> buffer \<Rightarrow> buffer" where
  "cipher_update_final lib key iv plaintext =
     cbc_encrypt (aes256_encrypt_block lib key) iv (blocks (pkcs7_pad plaintext))"

text \<open>\<^verbatim>\<open>Buffer.concat([decipher.update(data), decipher.final()])\<close>: \<^verbatim>\<open>final\<close> throws
  when the data is empty or not a whole number of blocks, or when the padding is bad.\<close>

definition decipher_update_final :: "'p platform \<Rightarrow> buffer \<Rightarrow> buffer \<Rightarrow> buffer \<Rightarrow> exn + buffer" where
  "decipher_update_final lib key iv ciphertext =
     (if ciphertext = [] \<or> length ciphertext mod 16 \<noteq> 0
      then Inl ERR_OSSL_WRONG_FINAL_BLOCK_LENGTH
      else pkcs7_unpad (cbc_decrypt (aes256_decrypt_block lib key) iv (blocks ciphertext)))"

subsection \<open>Values of the request body\<close>

text \<open>A field of the parsed JSON body: absent (\<^verbatim>\<open>undefined\<close>), \<^verbatim>\<open>null\<close>, a boolean, a
  number (the handler only tests whether it is zero), a string, or an array or object.
  All the handler does with an array or object is to pass it to \<^verbatim>\<open>Buffer.from\<close>, so it
  is represented by what \<^verbatim>\<open>Buffer.from\<close> makes of it: the bytes of an array of
  numbers, or \<open>None\<close> when \<^verbatim>\<open>Buffer.from\<close> throws a TypeError.\<close>

datatype jsvalue =
    JUndefined
  | JNull
  | JBoolean bool
  | JNumber int
  | JString jsstring
  | JObject "buffer option"

fun truthy :: "jsvalue \<Rightarrow> bool" where
  "truthy JUndefined = False"
| "truthy JNull = False"
| "truthy (JBoolean b) = b"
| "truthy (JNumber n) = (n \<noteq> 0)"
| "truthy (JString s) = (s \<noteq> [])"
| "truthy (JObject x) = True"

datatype encoding = Base64 | Hex

fun buffer_from :: "jsvalue \<Rightarrow> encoding \<Rightarrow> exn + buffer" where
  "buffer_from (JString s) Base64 = Inr (buffer_from_base64 s)"
| "buffer_from (JString s) Hex = Inr (buffer_from_hex s)"
| "buffer_from (JObject (Some b)) enc = Inr b"
| "buffer_from v enc = Inl TypeError"

text \<open>\<^verbatim>\<open>s.split('.')\<close> cuts at every separator; the result is never empty.\<close>

fun split :: "jsstring \<Rightarrow> nat \<Rightarrow> jsstring list" where
  "split [] sep = [[]]"
| "split (c # cs) sep =
     (if c = sep then [] # split cs sep
      else case split cs sep of
        w # ws \<Rightarrow> (c # w) # ws
      | [] \<Rightarrow> [[c]])"

text \<open>\<^verbatim>\<open>xs[i]\<close> is \<^verbatim>\<open>undefined\<close> (here \<open>None\<close>) out of range.\<close>

definition index :: "'a list \<Rightarrow> nat \<Rightarrow> 'a option" where
  "index xs i = (if i < length xs then Some (xs ! i) else None)"

subsection \<open>The handlers\<close>

text \<open>How a handler ends: \<^verbatim>\<open>res.status(n).send(v)\<close>, \<^verbatim>\<open>next(new RouterError(n, msg))\<close>,
  or an exception that leaves the handler.\<close>

datatype 'a outcome =
    Send nat 'a
  | Next_RouterError nat string
  | Throws exn

text \<open>\<^verbatim>\<open>POST /token/encode\<close> (lines 25 to 42). \<open>random_iv\<close> is what
  \<^verbatim>\<open>crypto.randomBytes(16)\<close> returns in this call. Nothing is caught.\<close>

definition encode :: "'p platform \<Rightarrow> config \<Rightarrow> buffer \<Rightarrow> 'p \<Rightarrow> (jsstring \<times> jsstring) outcome" where
  "encode lib cfg random_iv body =
     (case JSON_stringify lib body of
        None \<Rightarrow> Throws TypeError
      | Some text \<Rightarrow>
     (case btoa text of
        Inl e \<Rightarrow> Throws e
      | Inr encoded \<Rightarrow>
          let data = buffer_from_base64 encoded;
              signature = to_base64 (hmac_sha256 lib (utf8_bytes (SECRET_SIGNATURE_KEY cfg)) data);
              token = encoded @ js ''.'' @ signature;
              iv = random_iv;
              key = utf8_bytes (SECRET_ENCRYPTION_KEY cfg)
          in (case createCipheriv key iv of
                Inl e \<Rightarrow> Throws e
              | Inr u \<Rightarrow>
                  let encrypted = cipher_update_final lib key iv (utf8_bytes token)
                  in Send 200 (to_base64 encrypted, to_hex iv))))"

text \<open>The calls of the decode handler that do the cryptographic work, in a log, so that
  what a request made the handler do can be stated.\<close>

datatype call =
    Buffer_from_base64
  | Buffer_from_hex
  | CreateDecipheriv
  | Decipher_final
  | Hmac_digest
  | Atob
  | JSON_parse_call

type_synonym 'a logged = "(exn + 'a) \<times> call list"

definition did :: "call \<Rightarrow> exn + 'a \<Rightarrow> 'a logged" where
  "did c r = (r, [c])"

definition return_logged :: "'a \<Rightarrow> 'a logged" where
  "return_logged a = (Inr a, [])"

text \<open>Sequencing inside the \<^verbatim>\<open>try\<close> block: an exception ends it, with the log so far.\<close>

definition and_then :: "'a logged \<Rightarrow> ('a \<Rightarrow> 'b logged) \<Rightarrow> 'b logged" where
  "and_then m f =
     (case m of
        (Inl e, l) \<Rightarrow> (Inl e, l)
      | (Inr a, l) \<Rightarrow> (case f a of (r, l') \<Rightarrow> (r, l @ l')))"

text \<open>The body of the decode request: \<^verbatim>\<open>req.body.token\<close> and \<^verbatim>\<open>req.body.context\<close>.\<close>

record decode_body =
  body_token :: jsvalue
  body_context :: jsvalue

text \<open>Lines 78 to 83: the two buffers, the decipher, the decrypted bytes.\<close>

definition decrypt_token :: "'p platform \<Rightarrow> config \<Rightarrow> jsvalue \<Rightarrow> jsvalue \<Rightarrow> buffer logged" where
  "decrypt_token lib cfg encryptedString ivString =
     and_then (did Buffer_from_base64 (buffer_from encryptedString Base64)) (\<lambda>encrypted.
     and_then (did Buffer_from_hex (buffer_from ivString Hex)) (\<lambda>iv.
     let key = utf8_bytes (SECRET_ENCRYPTION_KEY cfg) in
     and_then (did CreateDecipheriv (createCipheriv key iv)) (\<lambda>u.
     did Decipher_final (decipher_update_final lib key iv encrypted))))"

text \<open>Lines 85 to 102: split, the check of \<open>encoded\<close>, the signature, the payload.\<close>

definition verify_and_parse :: "'p platform \<Rightarrow> config \<Rightarrow> buffer \<Rightarrow> 'p outcome logged" where
  "verify_and_parse lib cfg decrypted =
     (let token = split (utf8_to_string decrypted) (of_char CHR ''.'');
          encoded = index token 0;
          signature = index token 1
      in case encoded of
           None \<Rightarrow> return_logged (Next_RouterError 400 ''InvalidParams'')
         | Some enc \<Rightarrow>
             if enc = [] then return_logged (Next_RouterError 400 ''InvalidParams'')
             else
               and_then
                 (did Hmac_digest
                    (Inr (to_base64 (hmac_sha256 lib (utf8_bytes (SECRET_SIGNATURE_KEY cfg))
                                       (buffer_from_base64 enc)))))
                 (\<lambda>calculatedSignature.
                    if signature \<noteq> Some calculatedSignature
                    then return_logged (Next_RouterError 400 ''Unauthorized'')
                    else
                      and_then (did Atob (atob enc)) (\<lambda>text.
                      and_then
                        (did JSON_parse_call
                           (case JSON_parse lib text of None \<Rightarrow> Inl SyntaxError | Some v \<Rightarrow> Inr v))
                        (\<lambda>decoded. return_logged (Send 200 decoded)))))"

text \<open>The \<^verbatim>\<open>try\<close> block (lines 77 to 102).\<close>

definition decode_try :: "'p platform \<Rightarrow> config \<Rightarrow> jsvalue \<Rightarrow> jsvalue \<Rightarrow> 'p outcome logged" where
  "decode_try lib cfg encryptedString ivString =
     and_then (decrypt_token lib cfg encryptedString ivString) (verify_and_parse lib cfg)"

text \<open>\<^verbatim>\<open>POST /token/decode\<close> (lines 70 to 106): the outcome and the log of calls.\<close>

definition decode :: "'p platform \<Rightarrow> config \<Rightarrow> decode_body \<Rightarrow> 'p outcome \<times> call list" where
  "decode lib cfg body =
     (if \<not> truthy (body_token body) \<or> \<not> truthy (body_context body)
      then (Next_RouterError 400 ''MissingParams'', [])
      else case decode_try lib cfg (body_token body) (body_context body) of
             (Inl error, l) \<Rightarrow> (Next_RouterError 400 ''InvalidParams'', l)
           | (Inr outcome, l) \<Rightarrow> (outcome, l))"

subsection \<open>A sample platform\<close>

text \<open>A small platform on which the handlers can be evaluated. Its block function is an
  invertible map of 16-byte blocks under a key, its digest has 32 bytes, and its JSON
  values are \<^verbatim>\<open>null\<close>, booleans, integers of magnitude below \<open>2 ^ 53\<close> (the integers that
  JavaScript prints and reads exactly), strings, arrays and objects. An object is the
  list of its properties in the order JavaScript enumerates them: the property names
  are distinct, and those that are array indices come first, in ascending order.\<close>

definition sample_encrypt_block :: "buffer \<Rightarrow> buffer \<Rightarrow> buffer" where
  "sample_encrypt_block key block = rev (xor_block block (take 16 key))"

definition sample_decrypt_block :: "buffer \<Rightarrow> buffer \<Rightarrow> buffer" where
  "sample_decrypt_block key block = xor_block (rev block) (take 16 key)"

definition sample_hmac :: "buffer \<Rightarrow> buffer \<Rightarrow> buffer" where
  "sample_hmac key data =
     (let h = fold (\<lambda>b acc. 31 * acc + b + 7) (key @ data) 0
      in map (\<lambda>i. h * of_nat (2 * i + 1) + of_nat i) [0..<32])"

datatype json =
    Jnull
  | Jbool bool
  | Jnum int
  | Jstr jsstring
  | Jarr "json list"
  | Jobj "(jsstring \<times> json) list"

text \<open>\<^verbatim>\<open>JSON.stringify\<close> for these values: no white space; in a string, the quote, the
  backslash and the control characters are escaped, a surrogate that is not part of a
  pair is written as \<^verbatim>\<open>\u\<close> and four hexadecimal digits, and every other code unit is
  copied.\<close>

definition escape_char :: "nat \<Rightarrow> jsstring" where
  "escape_char c =
     (if c = 34 then [92, 34]
      else if c = 92 then [92, 92]
      else if c = 8 then [92, 98]
      else if c = 9 then [92, 116]
      else if c = 10 then [92, 110]
      else if c = 12 then [92, 102]
      else if c = 13 then [92, 114]
      else if c < 32 then [92, 117, 48, 48, hex_digit (c div 16), hex_digit (c mod 16)]
      else [c])"

definition unicode_escape :: "nat \<Rightarrow> jsstring" where
  "unicode_escape c =
     [92, 117, hex_digit (c div 4096), hex_digit ((c div 256) mod 16),
      hex_digit ((c div 16) mod 16), hex_digit (c mod 16)]"

fun quote_chars :: "jsstring \<Rightarrow> jsstring" where
  "quote_chars (h # l # rest) =
     (if 55296 \<le> h \<and> h < 56320 \<and> 56320 \<le> l \<and> l < 57344 then h # l # quote_chars rest
      else if 55296 \<le> h \<and> h < 57344 then unicode_escape h @ quote_chars (l # rest)
      else escape_char h @ quote_chars (l # rest))"
| "quote_chars [c] = (if 55296 \<le> c \<and> c < 57344 then unicode_escape c else escape_char c)"
| "quote_chars [] = []"

definition quote :: "jsstring \<Rightarrow> jsstring" where
  "quote s = 34 # quote_chars s @ [34]"

fun digits :: "nat \<Rightarrow> jsstring" where
  "digits n = (if n < 10 then [48 + n] else digits (n div 10) @ [48 + n mod 10])"

declare digits.simps [simp del]

fun join :: "jsstring list \<Rightarrow> jsstring" where
  "join [] = []"
| "join [x] = x"
| "join (x # y # ys) = x @ 44 # join (y # ys)"

fun stringify :: "json \<Rightarrow> jsstring" where
  "stringify Jnull = js ''null''"
| "stringify (Jbool b) = (if b then js ''true'' else js ''false'')"
| "stringify (Jnum n) = (if n < 0 then 45 # digits (nat (- n)) else digits (nat n))"
| "stringify (Jstr s) = quote s"
| "stringify (Jarr xs) = 91 # join (map stringify xs) @ [93]"
| "stringify (Jobj ms) = 123 # join (map (\<lambda>(k, v). quote k @ 58 # stringify v) ms) @ [125]"

text \<open>\<^verbatim>\<open>JSON.parse\<close> for the texts of these values. A text with a number that has a
  fraction or an exponent, that is \<^verbatim>\<open>-0\<close>, or that is not below \<open>2 ^ 53\<close> in magnitude
  is outside the sample, and \<open>sample_parse\<close> gives \<open>None\<close> for it. The first argument of
  the three parsers bounds the number of their calls; \<open>sample_parse\<close> gives it the
  length of the text.\<close>

definition skip_ws :: "jsstring \<Rightarrow> jsstring" where
  "skip_ws s = dropWhile (\<lambda>c. c = 32 \<or> c = 9 \<or> c = 10 \<or> c = 13) s"

definition unescape :: "nat \<Rightarrow> nat option" where
  "unescape e =
     (if e = 34 \<or> e = 92 \<or> e = 47 then Some e
      else if e = 98 then Some 8
      else if e = 102 then Some 12
      else if e = 110 then Some 10
      else if e = 114 then Some 13
      else if e = 116 then Some 9
      else None)"

text \<open>The characters of a string after its opening quote, up to the closing one.\<close>

fun parse_string :: "jsstring \<Rightarrow> (jsstring \<times> jsstring) option" where
  "parse_string [] = None"
| "parse_string (c # cs) =
     (if c = 34 then Some ([], cs)
      else if c < 32 then None
      else if c = 92 then
        (case cs of
           [] \<Rightarrow> None
         | e # r \<Rightarrow>
             if e = 117 then
               (case map hex_value (take 4 r) of
                  [Some h3, Some h2, Some h1, Some h0] \<Rightarrow>
                    map_option (\<lambda>(str, rest). ((h3 * 4096 + h2 * 256 + h1 * 16 + h0) # str, rest))
                      (parse_string (drop 4 r))
                | _ \<Rightarrow> None)
             else
               (case unescape e of
                  None \<Rightarrow> None
                | Some x \<Rightarrow> map_option (\<lambda>(str, rest). (x # str, rest)) (parse_string r)))
      else map_option (\<lambda>(str, rest). (c # str, rest)) (parse_string cs))"

definition is_digit :: "nat \<Rightarrow> bool" where
  "is_digit c = (48 \<le> c \<and> c \<le> 57)"

definition parse_nat :: "jsstring \<Rightarrow> (nat \<times> jsstring) option" where
  "parse_nat s =
     (let ds = takeWhile is_digit s; rest = dropWhile is_digit s in
      if ds = [] \<or> (hd ds = 48 \<and> length ds \<noteq> 1) then None
      else if rest \<noteq> [] \<and> (hd rest = 46 \<or> hd rest = 101 \<or> hd rest = 69) then None
      else Some (foldl (\<lambda>acc d. 10 * acc + (d - 48)) 0 ds, rest))"

definition parse_int :: "jsstring \<Rightarrow> (int \<times> jsstring) option" where
  "parse_int s =
     (case s of
        [] \<Rightarrow> None
      | c # cs \<Rightarrow>
          if c = 45 then
            (case parse_nat cs of
               None \<Rightarrow> None
             | Some (n, rest) \<Rightarrow> if n = 0 \<or> 9007199254740992 \<le> n then None else Some (- int n, rest))
          else
            (case parse_nat s of
               None \<Rightarrow> None
             | Some (n, rest) \<Rightarrow> if 9007199254740992 \<le> n then None else Some (int n, rest)))"

text \<open>The properties of an object, from the members of its text: a name that comes again
  replaces the value and keeps the place of the first, and the names that are array
  indices (the decimal numerals below \<open>2 ^ 32 - 1\<close>) come first, in ascending order.\<close>

fun set_property :: "(jsstring \<times> json) list \<Rightarrow> jsstring \<Rightarrow> json \<Rightarrow> (jsstring \<times> json) list" where
  "set_property [] k v = [(k, v)]"
| "set_property ((k', v') # ms) k v =
     (if k' = k then (k, v) # ms else (k', v') # set_property ms k v)"

definition index_value :: "jsstring \<Rightarrow> nat" where
  "index_value s = foldl (\<lambda>acc d. 10 * acc + (d - 48)) 0 s"

definition is_index :: "jsstring \<Rightarrow> bool" where
  "is_index s =
     (s \<noteq> [] \<and> (\<forall>c \<in> set s. is_digit c) \<and> (hd s \<noteq> 48 \<or> length s = 1) \<and>
      index_value s < 4294967295)"

definition properties :: "(jsstring \<times> json) list \<Rightarrow> (jsstring \<times> json) list" where
  "properties members =
     (let ps = foldl (\<lambda>acc (k, v). set_property acc k v) [] members
      in sort_key (\<lambda>(k, v). index_value k) (filter (\<lambda>(k, v). is_index k) ps)
         @ filter (\<lambda>(k, v). \<not> is_index k) ps)"

fun parse_value :: "nat \<Rightarrow> jsstring \<Rightarrow> (json \<times> jsstring) option"
  and parse_elements :: "nat \<Rightarrow> jsstring \<Rightarrow> (json list \<times> jsstring) option"
  and parse_members :: "nat \<Rightarrow> jsstring \<Rightarrow> ((jsstring \<times> json) list \<times> jsstring) option" where
  "parse_value 0 s = None"
| "parse_value (Suc n) s =
     (let t = skip_ws s in
      case t of
        [] \<Rightarrow> None
      | c # cs \<Rightarrow>
          if c = 34 then map_option (\<lambda>(str, rest). (Jstr str, rest)) (parse_string cs)
          else if c = 91 then
            (case skip_ws cs of
               [] \<Rightarrow> None
             | d # ds \<Rightarrow>
                 if d = 93 then Some (Jarr [], ds)
                 else map_option (\<lambda>(vs, rest). (Jarr vs, rest)) (parse_elements n cs))
          else if c = 123 then
            (case skip_ws cs of
               [] \<Rightarrow> None
             | d # ds \<Rightarrow>
                 if d = 125 then Some (Jobj [], ds)
                 else map_option (\<lambda>(ms, rest). (Jobj (properties ms), rest)) (parse_members n cs))
          else if take 4 t = js ''null'' then Some (Jnull, drop 4 t)
          else if take 4 t = js ''true'' then Some (Jbool True, drop 4 t)
          else if take 5 t = js ''false'' then Some (Jbool False, drop 5 t)
          else map_option (\<lambda>(i, rest). (Jnum i, rest)) (parse_int t))"
| "parse_elements 0 s = None"
| "parse_elements (Suc n) s =
     (case parse_value n s of
        None \<Rightarrow> None
      | Some (v, r) \<Rightarrow>
          (case skip_ws r of
             [] \<Rightarrow> None
           | d # ds \<Rightarrow>
               if d = 93 then Some ([v], ds)
               else if d = 44 then map_option (\<lambda>(vs, rest). (v # vs, rest)) (parse_elements n ds)
               else None))"
| "parse_members 0 s = None"
| "parse_members (Suc n) s =
     (case skip_ws s of
        [] \<Rightarrow> None
      | q # qs \<Rightarrow>
          if q \<noteq> 34 then None
          else
            (case parse_string qs of
               None \<Rightarrow> None
             | Some (k, r) \<Rightarrow>
                 (case skip_ws r of
                    [] \<Rightarrow> None
                  | c # cs \<Rightarrow>
                      if c \<noteq> 58 then None
                      else
                        (case parse_value n cs of
                           None \<Rightarrow> None
                         | Some (v, r2) \<Rightarrow>
                             (case skip_ws r2 of
                                [] \<Rightarrow> None
                              | d # ds \<Rightarrow>
                                  if d = 125 then Some ([(k, v)], ds)
                                  else if d = 44 then
                                    map_option (\<lambda>(ms, rest). ((k, v) # ms, rest)) (parse_members n ds)
                                  else None)))))"

definition sample_parse :: "jsstring \<Rightarrow> json option" where
  "sample_parse s =
     (case parse_value (Suc (length s)) s of
        None \<Rightarrow> None
      | Some (v, rest) \<Rightarrow> if skip_ws rest = [] then Some v else None)"

definition sample_platform :: "json platform" where
  "sample_platform =
     \<lparr> aes256_encrypt_block = sample_encrypt_block,
       aes256_decrypt_block = sample_decrypt_block,
       hmac_sha256 = sample_hmac,
       JSON_stringify = (\<lambda>v. Some (stringify v)),
       JSON_parse = sample_parse \<rparr>"

definition sample_config :: config where
  "sample_config =
     \<lparr> SECRET_SIGNATURE_KEY = js ''signature-secret'',
       SECRET_ENCRYPTION_KEY = js ''0123456789abcdef0123456789abcdef'' \<rparr>"

subsection \<open>Notions used in the statements\<close>

text \<open>The six-bit values of a list of bytes, and the padding that follows their
  characters: \<open>base64_encode\<close> is the characters of the one followed by the other.\<close>

fun sextets :: "nat list \<Rightarrow> nat list" where
  "sextets (a # b # c # rest) =
     a div 4 # ((a mod 4) * 16 + b div 16) # ((b mod 16) * 4 + c div 64) # c mod 64 # sextets rest"
| "sextets [a, b] = [a div 4, (a mod 4) * 16 + b div 16, (b mod 16) * 4]"
| "sextets [a] = [a div 4, (a mod 4) * 16]"
| "sextets [] = []"

fun padding :: "nat list \<Rightarrow> nat list" where
  "padding (a # b # c # rest) = padding rest"
| "padding [a, b] = [61]"
| "padding [a] = [61, 61]"
| "padding [] = []"

text \<open>What the theorems assume of the block functions under a key: on blocks of 16 bytes,
  encryption gives a block of 16 bytes and decryption undoes it.\<close>

definition good_block_cipher :: "(buffer \<Rightarrow> buffer) \<Rightarrow> (buffer \<Rightarrow> buffer) \<Rightarrow> bool" where
  "good_block_cipher E D = (\<forall>b. length b = 16 \<longrightarrow> length (E b) = 16 \<and> D (E b) = b)"

text \<open>What the theorems assume of the platform and the configuration: the encryption key
  has 32 bytes, the block functions under it are inverse, and a digest has 32 bytes.\<close>

definition platform_ok :: "'p platform \<Rightarrow> config \<Rightarrow> bool" where
  "platform_ok lib cfg =
     (length (utf8_bytes (SECRET_ENCRYPTION_KEY cfg)) = 32 \<and>
      good_block_cipher (aes256_encrypt_block lib (utf8_bytes (SECRET_ENCRYPTION_KEY cfg)))
        (aes256_decrypt_block lib (utf8_bytes (SECRET_ENCRYPTION_KEY cfg))) \<and>
      (\<forall>data. length (hmac_sha256 lib (utf8_bytes (SECRET_SIGNATURE_KEY cfg)) data) = 32))"

text \<open>The calls of lines 78 to 83, in order.\<close>

definition calls_to_decrypt :: "call list" where
  "calls_to_decrypt = [Buffer_from_base64, Buffer_from_hex, CreateDecipheriv, Decipher_final]"

text \<open>The string \<^verbatim>\<open>token\<close> that lines 27 to 32 of encode build from the JSON text.\<close>

definition signed_block :: "'p platform \<Rightarrow> config \<Rightarrow> jsstring \<Rightarrow> jsstring" where
  "signed_block lib cfg text =
     base64_encode text @ js ''.'' @
     to_base64 (hmac_sha256 lib (utf8_bytes (SECRET_SIGNATURE_KEY cfg))
                  (buffer_from_base64 (base64_encode text)))"

text \<open>The signature as the specification words it, for comparison with the code: the
  remainder of the plaintext after its first \<^verbatim>\<open>.\<close>.\<close>

definition signature_by_spec :: "jsstring \<Rightarrow> jsstring" where
  "signature_by_spec plaintext = tl (dropWhile (\<lambda>c. c \<noteq> 46) plaintext)"

text \<open>The token that encode returns on the sample platform for a JSON text and an IV.\<close>

definition sample_token :: "buffer \<Rightarrow> jsstring \<Rightarrow> jsstring" where
  "sample_token iv text =
     to_base64 (cipher_update_final sample_platform (utf8_bytes (SECRET_ENCRYPTION_KEY sample_config))
                  iv (utf8_bytes (signed_block sample_platform sample_config text)))"

section \<open>Lemmas\<close>

subsection \<open>The log and the outcomes of decode\<close>

lemma and_then_did:
  "and_then (did c r) f =
     (case r of Inl e \<Rightarrow> (Inl e, [c]) | Inr a \<Rightarrow> (fst (f a), c # snd (f a)))"
  by (simp add: and_then_def did_def split: sum.splits prod.splits)

lemma and_then_pair:
  "and_then (r, l) f =
     (case r of Inl e \<Rightarrow> (Inl e, l) | Inr a \<Rightarrow> (fst (f a), l @ snd (f a)))"
  by (simp add: and_then_def split: sum.splits prod.splits)

lemma and_then_Inl: "and_then (Inl e, l) f = (Inl e, l)"
  by (simp add: and_then_def)

lemma and_then_Inr: "and_then (Inr a, l) f = (fst (f a), l @ snd (f a))"
  by (simp add: and_then_def split: prod.splits)

lemma decode_falsy:
  "\<not> truthy (body_token body) \<or> \<not> truthy (body_context body) \<Longrightarrow>
   decode lib cfg body = (Next_RouterError 400 ''MissingParams'', [])"
  by (auto simp: decode_def)

lemma decode_truthy:
  "truthy (body_token body) \<Longrightarrow> truthy (body_context body) \<Longrightarrow>
   decode lib cfg body =
     (case decode_try lib cfg (body_token body) (body_context body) of
        (Inl error, l) \<Rightarrow> (Next_RouterError 400 ''InvalidParams'', l)
      | (Inr outcome, l) \<Rightarrow> (outcome, l))"
  by (simp add: decode_def)

lemma verify_and_parse_cases:
  "(\<exists>e. fst (verify_and_parse lib cfg d) = Inl e) \<or>
   (\<exists>p. fst (verify_and_parse lib cfg d) = Inr (Send 200 p)) \<or>
   fst (verify_and_parse lib cfg d) = Inr (Next_RouterError 400 ''InvalidParams'') \<or>
   fst (verify_and_parse lib cfg d) = Inr (Next_RouterError 400 ''Unauthorized'')"
  by (auto simp: verify_and_parse_def Let_def and_then_did return_logged_def
      split: option.splits sum.splits)

lemma decode_try_cases:
  "(\<exists>e. fst (decode_try lib cfg t c) = Inl e) \<or>
   (\<exists>p. fst (decode_try lib cfg t c) = Inr (Send 200 p)) \<or>
   fst (decode_try lib cfg t c) = Inr (Next_RouterError 400 ''InvalidParams'') \<or>
   fst (decode_try lib cfg t c) = Inr (Next_RouterError 400 ''Unauthorized'')"
proof (cases "decrypt_token lib cfg t c")
  case (Pair r l)
  show ?thesis
  proof (cases r)
    case (Inl e)
    with Pair show ?thesis by (simp add: decode_try_def and_then_Inl)
  next
    case (Inr d)
    with Pair verify_and_parse_cases [of lib cfg d] show ?thesis
      by (simp add: decode_try_def and_then_Inr)
  qed
qed

lemma decode_outcomes:
  "(\<exists>p. fst (decode lib cfg body) = Send 200 p) \<or>
   fst (decode lib cfg body) = Next_RouterError 400 ''MissingParams'' \<or>
   fst (decode lib cfg body) = Next_RouterError 400 ''InvalidParams'' \<or>
   fst (decode lib cfg body) = Next_RouterError 400 ''Unauthorized''"
proof (cases "truthy (body_token body) \<and> truthy (body_context body)")
  case False
  then show ?thesis by (auto simp: decode_def)
next
  case True
  with decode_try_cases [of lib cfg "body_token body" "body_context body"] show ?thesis
    by (auto simp: decode_def split: prod.splits sum.splits)
qed

lemma decode_caught:
  "truthy (body_token body) \<Longrightarrow> truthy (body_context body) \<Longrightarrow>
   fst (decode_try lib cfg (body_token body) (body_context body)) = Inl e \<Longrightarrow>
   fst (decode lib cfg body) = Next_RouterError 400 ''InvalidParams''"
  by (auto simp: decode_def split: prod.splits sum.splits)

lemma split_not_Nil: "split s sep \<noteq> []"
  by (induction s) (auto split: list.splits)

lemma index_split_0: "index (split s sep) 0 = Some (takeWhile (\<lambda>c. c \<noteq> sep) s)"
proof (induction s)
  case Nil
  show ?case by (simp add: index_def)
next
  case (Cons c cs)
  then show ?case
    using split_not_Nil [of cs sep] by (auto simp: index_def split: list.splits)
qed

lemma index_split_1:
  "index (split s sep) (Suc 0) =
     (if sep \<in> set s then Some (takeWhile (\<lambda>c. c \<noteq> sep) (tl (dropWhile (\<lambda>c. c \<noteq> sep) s)))
      else None)"
proof (induction s)
  case Nil
  show ?case by (simp add: index_def)
next
  case (Cons c cs)
  show ?case
  proof (cases "c = sep")
    case True
    with index_split_0 [of cs sep] show ?thesis
      by (simp add: index_def split_not_Nil)
  next
    case False
    with Cons split_not_Nil [of cs sep] show ?thesis
      by (auto simp: index_def split: list.splits if_splits)
  qed
qed

lemma utf8_to_string_not_Nil: "d \<noteq> [] \<Longrightarrow> utf8_to_string d \<noteq> []"
  by (cases d) (auto simp: code_units_def Let_def split: option.splits)

lemma split_no_sep: "sep \<notin> set s \<Longrightarrow> split s sep = [s]"
  by (induction s) auto

lemma verify_and_parse_empty:
  "takeWhile (\<lambda>c. c \<noteq> 46) (utf8_to_string d) = [] \<Longrightarrow>
   verify_and_parse lib cfg d = (Inr (Next_RouterError 400 ''InvalidParams''), [])"
  by (simp add: verify_and_parse_def Let_def index_split_0 return_logged_def)

lemma verify_and_parse_mismatch:
  assumes "index (split (utf8_to_string d) 46) 0 = Some enc" "enc \<noteq> []"
    and "index (split (utf8_to_string d) 46) 1 \<noteq>
         Some (to_base64 (hmac_sha256 lib (utf8_bytes (SECRET_SIGNATURE_KEY cfg)) (buffer_from_base64 enc)))"
  shows "verify_and_parse lib cfg d = (Inr (Next_RouterError 400 ''Unauthorized''), [Hmac_digest])"
  using assms by (simp add: verify_and_parse_def Let_def and_then_did return_logged_def)

lemma decode_after_decrypt:
  assumes "truthy (body_token body)" "truthy (body_context body)"
    and "decrypt_token lib cfg (body_token body) (body_context body) = (Inr d, l)"
  shows "decode lib cfg body =
     (case verify_and_parse lib cfg d of
        (Inl e, l') \<Rightarrow> (Next_RouterError 400 ''InvalidParams'', l @ l')
      | (Inr outcome, l') \<Rightarrow> (outcome, l @ l'))"
  using assms by (simp add: decode_def decode_try_def and_then_Inr split: prod.splits sum.splits)

lemma decrypt_token_Inr:
  assumes "decrypt_token lib cfg t c = (Inr d, l)"
  shows "l = [Buffer_from_base64, Buffer_from_hex, CreateDecipheriv, Decipher_final]"
    and "\<exists>ct iv. buffer_from t Base64 = Inr ct \<and> buffer_from c Hex = Inr iv \<and>
           createCipheriv (utf8_bytes (SECRET_ENCRYPTION_KEY cfg)) iv = Inr () \<and>
           decipher_update_final lib (utf8_bytes (SECRET_ENCRYPTION_KEY cfg)) iv ct = Inr d"
  using assms
  by (auto simp: decrypt_token_def and_then_pair did_def Let_def split: sum.splits)

text \<open>The decode handler after a decryption that succeeds, with the two parts of the
  plaintext written out: \<open>token[0]\<close> is the text before the first \<^verbatim>\<open>.\<close>, and \<open>token[1]\<close> is
  the text between the first \<^verbatim>\<open>.\<close> and the second (or the end), \<^verbatim>\<open>undefined\<close> when there is
  no \<^verbatim>\<open>.\<close>.\<close>

lemma verify_and_parse_explicit:
  "verify_and_parse lib cfg decrypted =
     (let plaintext = utf8_to_string decrypted;
          encoded = takeWhile (\<lambda>c. c \<noteq> 46) plaintext;
          signature = (if 46 \<in> set plaintext
                       then Some (takeWhile (\<lambda>c. c \<noteq> 46) (tl (dropWhile (\<lambda>c. c \<noteq> 46) plaintext)))
                       else None);
          calculated = to_base64 (hmac_sha256 lib (utf8_bytes (SECRET_SIGNATURE_KEY cfg))
                                    (buffer_from_base64 encoded))
      in if encoded = [] then (Inr (Next_RouterError 400 ''InvalidParams''), [])
         else if signature \<noteq> Some calculated
           then (Inr (Next_RouterError 400 ''Unauthorized''), [Hmac_digest])
         else case atob encoded of
                Inl e \<Rightarrow> (Inl e, [Hmac_digest, Atob])
              | Inr text \<Rightarrow>
                  (case JSON_parse lib text of
                     None \<Rightarrow> (Inl SyntaxError, [Hmac_digest, Atob, JSON_parse_call])
                   | Some v \<Rightarrow> (Inr (Send 200 v), [Hmac_digest, Atob, JSON_parse_call])))"
proof -
  have i0: "index (split (utf8_to_string decrypted) 46) 0
              = Some (takeWhile (\<lambda>c. c \<noteq> 46) (utf8_to_string decrypted))"
    by (rule index_split_0)
  have i1: "index (split (utf8_to_string decrypted) 46) (Suc 0)
              = (if 46 \<in> set (utf8_to_string decrypted)
                 then Some (takeWhile (\<lambda>c. c \<noteq> 46)
                              (tl (dropWhile (\<lambda>c. c \<noteq> 46) (utf8_to_string decrypted))))
                 else None)"
    by (rule index_split_1)
  show ?thesis
    unfolding verify_and_parse_def
    by (simp add: Let_def i0 i1 and_then_pair did_def return_logged_def
        split: option.splits sum.splits del: split.simps)
qed

lemma decode_explicit:
  assumes "truthy (body_token body)" and "truthy (body_context body)"
    and "decrypt_token lib cfg (body_token body) (body_context body) = (Inr decrypted, l)"
  shows "decode lib cfg body =
     (let plaintext = utf8_to_string decrypted;
          encoded = takeWhile (\<lambda>c. c \<noteq> 46) plaintext;
          signature = (if 46 \<in> set plaintext
                       then Some (takeWhile (\<lambda>c. c \<noteq> 46) (tl (dropWhile (\<lambda>c. c \<noteq> 46) plaintext)))
                       else None);
          calculated = to_base64 (hmac_sha256 lib (utf8_bytes (SECRET_SIGNATURE_KEY cfg))
                                    (buffer_from_base64 encoded))
      in if encoded = [] then (Next_RouterError 400 ''InvalidParams'', l)
         else if signature \<noteq> Some calculated
           then (Next_RouterError 400 ''Unauthorized'', l @ [Hmac_digest])
         else case atob encoded of
                Inl e \<Rightarrow> (Next_RouterError 400 ''InvalidParams'', l @ [Hmac_digest, Atob])
              | Inr text \<Rightarrow>
                  (case JSON_parse lib text of
                     None \<Rightarrow> (Next_RouterError 400 ''InvalidParams'', l @ [Hmac_digest, Atob, JSON_parse_call])
                   | Some v \<Rightarrow> (Send 200 v, l @ [Hmac_digest, Atob, JSON_parse_call])))"
  unfolding decode_after_decrypt [OF assms] verify_and_parse_explicit
  by (simp add: Let_def split: sum.splits option.splits)

subsection \<open>Base64\<close>

lemma div_mult_add: "u < n \<Longrightarrow> (r * n + u) div n = (r::nat)" by simp
lemma mod_mult_add: "u < n \<Longrightarrow> (r * n + u) mod n = (u::nat)" by simp
lemma byte_div16: "b < 256 \<Longrightarrow> (b::nat) div 16 < 16" by simp
lemma byte_div64: "b < 256 \<Longrightarrow> (b::nat) div 64 < 4" by simp
lemma byte_div4: "b < 256 \<Longrightarrow> (b::nat) div 4 < 64" by simp

lemma sextet2: "b < 256 \<Longrightarrow> (a::nat) mod 4 * 16 + b div 16 < 64"
proof -
  assume "b < 256"
  then have "b div 16 < 16" by simp
  moreover have "a mod 4 < 4" by simp
  ultimately show ?thesis by linarith
qed

lemma sextet3: "c < 256 \<Longrightarrow> (b::nat) mod 16 * 4 + c div 64 < 64"
proof -
  assume "c < 256"
  then have "c div 64 < 4" by simp
  moreover have "b mod 16 < 16" by simp
  ultimately show ?thesis by linarith
qed

lemma sextet3': "(b::nat) mod 16 * 4 < 64"
proof -
  have "b mod 16 < 16" by simp
  then show ?thesis by linarith
qed

lemma sextet2': "(a::nat) mod 4 * 16 < 64"
proof -
  have "a mod 4 < 4" by simp
  then show ?thesis by linarith
qed

lemma base64_encode_sextets:
  "base64_encode xs = map base64_char (sextets xs) @ padding xs"
  by (induction xs rule: sextets.induct) simp_all

lemma padding_cases: "padding xs = [] \<or> padding xs = [61] \<or> padding xs = [61, 61]"
  by (induction xs rule: padding.induct) simp_all

lemma length_base64_encode_mod: "length (base64_encode xs) mod 4 = 0"
  by (induction xs rule: base64_encode.induct) simp_all

lemma sextets_bound: "\<forall>x \<in> set xs. x < 256 \<Longrightarrow> \<forall>v \<in> set (sextets xs). v < 64"
  by (induction xs rule: sextets.induct)
     (simp_all add: byte_div4 sextet2 sextet3 sextet2' sextet3' del: mult_Suc_right)

lemma length_sextets_mod: "length (sextets xs) mod 4 \<noteq> 1"
  by (induction xs rule: sextets.induct) simp_all

lemma sextets_Nil: "(sextets xs = []) = (xs = [])"
  by (induction xs rule: sextets.induct) simp_all

lemma base64_groups_sextets:
  "\<forall>x \<in> set xs. x < 256 \<Longrightarrow> base64_groups (sextets xs) = map of_nat xs"
  by (induction xs rule: sextets.induct)
     (simp_all add: div_mult_add mod_mult_add byte_div16 byte_div64)

lemma base64_value_char: "v < 64 \<Longrightarrow> base64_value (base64_char v) = Some v"
  by (auto simp: base64_char_def base64_value_def)

lemma base64_char_less: "v < 64 \<Longrightarrow> base64_char v < 128"
  by (auto simp: base64_char_def)

lemma base64_char_not_eq: "v < 64 \<Longrightarrow> base64_char v \<noteq> 61 \<and> base64_char v \<noteq> 46 \<and> base64_char v \<noteq> 45 \<and> base64_char v \<noteq> 95"
  by (auto simp: base64_char_def)

lemma base64_char_not_ws: "v < 64 \<Longrightarrow> \<not> ascii_whitespace (base64_char v)"
  by (auto simp: base64_char_def ascii_whitespace_def)

lemma unbase64_char: "v < 64 \<Longrightarrow> unbase64 (base64_char v) = Some v"
  using base64_char_less [of v] base64_char_not_eq [of v] base64_value_char [of v]
  by (simp add: unbase64_def Let_def)

lemma base64_char_mod: "v < 64 \<Longrightarrow> base64_char v mod 256 \<noteq> 61"
  using base64_char_less [of v] base64_char_not_eq [of v] by simp

lemma map_filter_unbase64:
  "\<forall>v \<in> set vs. v < 64 \<Longrightarrow> List.map_filter unbase64 (map base64_char vs) = vs"
  by (induction vs) (simp_all add: unbase64_char)

lemma takeWhile_base64:
  assumes "\<forall>v \<in> set vs. v < 64" and "p = [] \<or> p = [61] \<or> p = [61, 61]"
  shows "takeWhile (\<lambda>c. c mod 256 \<noteq> 61) (map base64_char vs @ p) = map base64_char vs"
proof -
  have "\<forall>c \<in> set (map base64_char vs). c mod 256 \<noteq> 61"
    using assms(1) by (auto simp: base64_char_mod)
  then have "takeWhile (\<lambda>c. c mod 256 \<noteq> 61) (map base64_char vs @ p)
      = map base64_char vs @ takeWhile (\<lambda>c. c mod 256 \<noteq> 61) p"
    by (intro takeWhile_append2) auto
  with assms(2) show ?thesis by auto
qed

lemma buffer_from_base64_encode:
  assumes "\<forall>x \<in> set xs. x < 256"
  shows "buffer_from_base64 (base64_encode xs) = map of_nat xs"
  using assms
  by (simp add: buffer_from_base64_def base64_encode_sextets takeWhile_base64 padding_cases
      sextets_bound map_filter_unbase64 base64_groups_sextets)

lemma buffer_from_base64_to_base64: "buffer_from_base64 (to_base64 buf) = buf"
proof -
  have "\<forall>x \<in> set (map unat buf). x < 256"
  proof
    fix x assume "x \<in> set (map unat buf)"
    then obtain b :: byte where "x = unat b" by auto
    with unsigned_less [of b] show "x < 256" by simp
  qed
  then have "buffer_from_base64 (to_base64 buf) = map of_nat (map unat buf)"
    unfolding to_base64_def by (rule buffer_from_base64_encode)
  then show ?thesis by (simp add: comp_def)
qed

lemma strip_padding_encode:
  assumes "\<forall>c \<in> set body. c \<noteq> 61" and "p = [] \<or> p = [61] \<or> p = [61, 61]"
    and "length (body @ p) mod 4 = 0"
  shows "strip_padding (body @ p) = body"
proof -
  consider "p = []" | "p = [61]" | "p = [61, 61]" using assms(2) by blast
  then show ?thesis
  proof cases
    case 1
    with assms(1) show ?thesis
      by (cases body rule: rev_cases) (auto simp: strip_padding_def)
  next
    case 2
    with assms(1,3) show ?thesis
      by (cases body rule: rev_cases) (auto simp: strip_padding_def butlast_append)
  next
    case 3
    with assms(3) show ?thesis
      by (auto simp: strip_padding_def butlast_append)
  qed
qed

lemma atob_base64_encode:
  assumes "\<forall>x \<in> set xs. x < 256"
  shows "atob (base64_encode xs) = Inr xs"
proof -
  let ?body = "map base64_char (sextets xs)"
  have b: "\<forall>v \<in> set (sextets xs). v < 64" using assms by (rule sextets_bound)
  have "\<forall>c \<in> set ?body. \<not> ascii_whitespace c"
    using b by (auto simp: base64_char_not_ws)
  moreover have "\<forall>c \<in> set (padding xs). \<not> ascii_whitespace c"
    using padding_cases [of xs] by (auto simp: ascii_whitespace_def)
  ultimately have "\<forall>c \<in> set (base64_encode xs). \<not> ascii_whitespace c"
    by (auto simp: base64_encode_sextets)
  then have nows: "filter (\<lambda>c. \<not> ascii_whitespace c) (base64_encode xs) = base64_encode xs"
    by (simp add: filter_id_conv)
  have "\<forall>c \<in> set ?body. c \<noteq> 61" using b by (auto simp: base64_char_not_eq)
  then have strip: "strip_padding (base64_encode xs) = ?body"
    unfolding base64_encode_sextets
    using padding_cases [of xs] length_base64_encode_mod [of xs]
    by (intro strip_padding_encode) (simp_all add: base64_encode_sextets)
  have len: "length ?body mod 4 \<noteq> 1" using length_sextets_mod [of xs] by simp
  have vals: "\<forall>c \<in> set ?body. base64_value c \<noteq> None" using b by (auto simp: base64_value_char)
  have dec: "map (\<lambda>c. the (base64_value c)) ?body = sextets xs"
    using b by (simp add: map_idI base64_value_char)
  have un: "map unat (map of_nat xs :: buffer) = xs"
    using assms by (simp add: map_idI unat_of_nat)
  show ?thesis
    using len vals
    by (simp add: atob_def nows strip dec base64_groups_sextets [OF assms] un del: map_map)
qed

lemma btoa_latin1: "\<forall>c \<in> set s. c \<le> 255 \<Longrightarrow> btoa s = Inr (base64_encode s)"
  by (auto simp: btoa_def)

lemma btoa_not_latin1: "\<exists>c \<in> set s. 255 < c \<Longrightarrow> btoa s = Inl InvalidCharacterError"
  by (simp add: btoa_def)

lemma base64_encode_ascii: "\<forall>x \<in> set xs. x < 256 \<Longrightarrow> \<forall>c \<in> set (base64_encode xs). c < 128 \<and> c \<noteq> 46"
  using sextets_bound [of xs] padding_cases [of xs]
  by (auto simp: base64_encode_sextets base64_char_less base64_char_not_eq)

lemma base64_encode_Nil: "(base64_encode xs = []) = (xs = [])"
  by (induction xs rule: base64_encode.induct) simp_all

subsection \<open>Hexadecimal, UTF-8 and the cipher\<close>

lemma unhex_hex_digit: "v < 16 \<Longrightarrow> unhex (hex_digit v) = Some v"
  by (auto simp: unhex_def hex_value_def hex_digit_def)

lemma byte_nibbles: "of_nat (unat b div 16 * 16 + unat b mod 16) = (b :: byte)"
  by simp

lemma buffer_from_hex_to_hex: "buffer_from_hex (to_hex buf) = buf"
proof (induction buf)
  case Nil
  show ?case by (simp add: to_hex_def)
next
  case (Cons b bs)
  have "unat b < 256" using unsigned_less [of b] by simp
  then have "unat b div 16 < 16" by simp
  moreover have "unat b mod 16 < 16" by simp
  ultimately show ?case
    using Cons byte_nibbles [of b] by (simp add: to_hex_def unhex_hex_digit del: of_nat_add of_nat_mult)
qed

lemma length_to_hex: "length (to_hex buf) = 2 * length buf"
  by (induction buf) (simp_all add: to_hex_def)

lemma utf8_bytes_ascii: "\<forall>c \<in> set s. c < 128 \<Longrightarrow> utf8_bytes s = map of_nat s"
  by (induction s rule: utf8_bytes.induct) (auto simp: utf8_of_code_point_def)

lemma utf8_to_string_ascii: "\<forall>b \<in> set bs. unat b < 128 \<Longrightarrow> utf8_to_string bs = map unat bs"
  by (induction bs) auto

lemma utf8_round_trip_ascii:
  assumes "\<forall>c \<in> set s. c < 128"
  shows "utf8_to_string (utf8_bytes s) = s"
proof -
  have "\<forall>c \<in> set s. unat (of_nat c :: byte) = c"
    using assms by (auto simp: unat_of_nat)
  then show ?thesis
    using assms by (simp add: utf8_bytes_ascii utf8_to_string_ascii map_idI comp_def)
qed

lemma length_xor_block: "length (xor_block a b) = min (length a) (length b)"
  by (simp add: xor_block_def)

lemma xor_block_cancel: "length a = length b \<Longrightarrow> xor_block (xor_block a b) b = a"
  unfolding xor_block_def
  by (induction a b rule: list_induct2) (simp_all add: xor.assoc)

lemma blocks_block: "length a = 16 \<Longrightarrow> blocks (a @ r) = a # blocks r"
  by (cases a) simp_all

lemma concat_blocks: "concat (blocks xs) = xs"
  by (induction xs rule: blocks.induct) simp_all

lemma blocks_length_mult:
  "length xs = 16 * n \<Longrightarrow> \<forall>b \<in> set (blocks xs). length b = 16"
proof (induction n arbitrary: xs)
  case 0
  then show ?case by simp
next
  case (Suc n)
  have t: "length (take 16 xs) = 16" using Suc.prems by simp
  have d: "length (drop 16 xs) = 16 * n" using Suc.prems by simp
  have "blocks (take 16 xs @ drop 16 xs) = take 16 xs # blocks (drop 16 xs)"
    using t by (rule blocks_block)
  then have "blocks xs = take 16 xs # blocks (drop 16 xs)" by simp
  with t Suc.IH [OF d] show ?case by simp
qed

lemma blocks_length:
  assumes "length xs mod 16 = 0"
  shows "\<forall>b \<in> set (blocks xs). length b = 16"
proof -
  from assms have "16 dvd length xs" by (simp add: dvd_eq_mod_eq_0)
  then obtain n where "length xs = 16 * n" by (auto simp: dvd_def)
  then show ?thesis by (rule blocks_length_mult)
qed

lemma cbc_encrypt_length:
  assumes "\<forall>b. length b = 16 \<longrightarrow> length (E b) = 16"
    and "\<forall>p \<in> set ps. length p = 16" and "length prev = 16"
  shows "length (cbc_encrypt E prev ps) = 16 * length ps"
  using assms(2,3)
proof (induction ps arbitrary: prev)
  case Nil
  show ?case by simp
next
  case (Cons p ps)
  have x: "length (xor_block p prev) = 16" using Cons.prems by (simp add: length_xor_block)
  then have c: "length (E (xor_block p prev)) = 16" using assms(1) by simp
  with Cons show ?case by (simp add: Let_def)
qed

lemma cbc_round_trip:
  assumes "\<forall>b. length b = 16 \<longrightarrow> length (E b) = 16 \<and> D (E b) = b"
    and "\<forall>p \<in> set ps. length p = 16" and "length prev = 16"
  shows "cbc_decrypt D prev (blocks (cbc_encrypt E prev ps)) = concat ps"
  using assms(2,3)
proof (induction ps arbitrary: prev)
  case Nil
  show ?case by simp
next
  case (Cons p ps)
  let ?c = "E (xor_block p prev)"
  have x: "length (xor_block p prev) = 16" using Cons.prems by (simp add: length_xor_block)
  then have c: "length ?c = 16" and d: "D ?c = xor_block p prev" using assms(1) by simp_all
  have "blocks (?c @ cbc_encrypt E ?c ps) = ?c # blocks (cbc_encrypt E ?c ps)"
    using c by (rule blocks_block)
  moreover have "xor_block (xor_block p prev) prev = p"
    using Cons.prems by (simp add: xor_block_cancel)
  moreover have "cbc_decrypt D ?c (blocks (cbc_encrypt E ?c ps)) = concat ps"
    using Cons.prems c by (intro Cons.IH) simp_all
  ultimately show ?case by (simp add: Let_def d)
qed

text \<open>Decrypting under another IV changes the first block only.\<close>

lemma cbc_other_iv:
  assumes "\<forall>b. length b = 16 \<longrightarrow> length (E b) = 16 \<and> D (E b) = b"
    and "length p = 16" "\<forall>q \<in> set ps. length q = 16" and "length iv = 16"
  shows "cbc_decrypt D iv' (blocks (cbc_encrypt E iv (p # ps)))
           = xor_block (xor_block p iv) iv' @ concat ps"
proof -
  let ?c = "E (xor_block p iv)"
  have x: "length (xor_block p iv) = 16" using assms by (simp add: length_xor_block)
  then have c: "length ?c = 16" and d: "D ?c = xor_block p iv" using assms(1) by simp_all
  have "blocks (?c @ cbc_encrypt E ?c ps) = ?c # blocks (cbc_encrypt E ?c ps)"
    using c by (rule blocks_block)
  moreover have "cbc_decrypt D ?c (blocks (cbc_encrypt E ?c ps)) = concat ps"
    using assms(1,3) c by (rule cbc_round_trip)
  ultimately show ?thesis by (simp add: Let_def d)
qed

lemma pad_count: "0 < 16 - length (pt :: buffer) mod 16 \<and> 16 - length pt mod 16 \<le> 16"
  by simp

lemma pkcs7_pad_eq:
  "pkcs7_pad pt = pt @ replicate (16 - length pt mod 16) (of_nat (16 - length pt mod 16))"
  by (simp add: pkcs7_pad_def Let_def)

lemma length_pkcs7_pad: "length (pkcs7_pad pt) mod 16 = 0"
proof -
  have "length pt mod 16 < 16" by simp
  moreover have "16 * (length pt div 16) + length pt mod 16 = length pt"
    by (rule mult_div_mod_eq)
  ultimately have "length pt + (16 - length pt mod 16) = 16 * (length pt div 16) + 16"
    by linarith
  then have "length (pkcs7_pad pt) = 16 * (length pt div 16) + 16"
    by (simp add: pkcs7_pad_eq)
  then show ?thesis by simp
qed

lemma pkcs7_pad_not_Nil: "pkcs7_pad pt \<noteq> []"
  by (simp add: pkcs7_pad_eq)

lemma unat_pad_byte: "0 < n \<Longrightarrow> n \<le> 16 \<Longrightarrow> unat (of_nat n :: byte) = n"
  by (simp add: unat_of_nat)

lemma pkcs7_unpad_pad: "pkcs7_unpad (pkcs7_pad pt) = Inr pt"
proof -
  define n where "n = 16 - length pt mod 16"
  have n: "0 < n" "n \<le> 16" by (simp_all add: n_def)
  have eq: "pkcs7_pad pt = pt @ replicate n (of_nat n)"
    by (simp add: pkcs7_pad_eq n_def)
  have l: "last (pt @ replicate n (of_nat n :: byte)) = of_nat n"
    using n by (cases n) simp_all
  show ?thesis
    unfolding eq pkcs7_unpad_def using n
    by (simp add: l unat_pad_byte Let_def)
qed

lemma pkcs7_pad_same_length:
  "length a = length b \<Longrightarrow> pkcs7_pad a = a @ drop (length b) (pkcs7_pad b)"
  by (simp add: pkcs7_pad_eq)

lemma cipher_update_final_length:
  assumes "good_block_cipher (aes256_encrypt_block lib key) (aes256_decrypt_block lib key)"
    and "length iv = 16"
  shows "length (cipher_update_final lib key iv pt) mod 16 = 0"
    and "cipher_update_final lib key iv pt \<noteq> []"
proof -
  have b: "\<forall>p \<in> set (blocks (pkcs7_pad pt)). length p = 16"
    using length_pkcs7_pad by (rule blocks_length)
  have E: "\<forall>b. length b = 16 \<longrightarrow> length (aes256_encrypt_block lib key b) = 16"
    using assms(1) by (simp add: good_block_cipher_def)
  have len: "length (cipher_update_final lib key iv pt) = 16 * length (blocks (pkcs7_pad pt))"
    unfolding cipher_update_final_def using E b assms(2) by (rule cbc_encrypt_length)
  then show "length (cipher_update_final lib key iv pt) mod 16 = 0" by simp
  have "blocks (pkcs7_pad pt) \<noteq> []"
    using pkcs7_pad_not_Nil [of pt] by (cases "pkcs7_pad pt") simp_all
  with len show "cipher_update_final lib key iv pt \<noteq> []" by auto
qed

lemma decipher_cipher:
  assumes "good_block_cipher (aes256_encrypt_block lib key) (aes256_decrypt_block lib key)"
    and "length iv = 16"
  shows "decipher_update_final lib key iv (cipher_update_final lib key iv pt) = Inr pt"
proof -
  have b: "\<forall>p \<in> set (blocks (pkcs7_pad pt)). length p = 16"
    using length_pkcs7_pad by (rule blocks_length)
  have "cbc_decrypt (aes256_decrypt_block lib key) iv
          (blocks (cbc_encrypt (aes256_encrypt_block lib key) iv (blocks (pkcs7_pad pt))))
        = concat (blocks (pkcs7_pad pt))"
    using assms(1) [unfolded good_block_cipher_def] b assms(2) by (rule cbc_round_trip)
  then show ?thesis
    using cipher_update_final_length [OF assms, of pt]
    by (simp add: decipher_update_final_def cipher_update_final_def concat_blocks pkcs7_unpad_pad)
qed

lemma decipher_other_iv:
  assumes "good_block_cipher (aes256_encrypt_block lib key) (aes256_decrypt_block lib key)"
    and "length iv = 16" and "16 \<le> length pt" and "length iv' = 16"
  shows "decipher_update_final lib key iv' (cipher_update_final lib key iv pt)
           = Inr (xor_block (xor_block (take 16 pt) iv) iv' @ drop 16 pt)"
proof -
  let ?pad = "drop (length pt) (pkcs7_pad pt)"
  let ?first = "xor_block (xor_block (take 16 pt) iv) iv'"
  have split: "pkcs7_pad pt = take 16 pt @ (drop 16 pt @ ?pad)"
    by (simp add: pkcs7_pad_eq)
  have t: "length (take 16 pt) = 16" using assms(3) by simp
  have bl: "blocks (pkcs7_pad pt) = take 16 pt # blocks (drop 16 pt @ ?pad)"
    unfolding split [symmetric, THEN arg_cong [where f = blocks]]
    by (subst split) (rule blocks_block [OF t])
  have "length (drop 16 pt @ ?pad) mod 16 = 0"
  proof -
    have "length (pkcs7_pad pt) = 16 + length (drop 16 pt @ ?pad)"
      using t by (subst split) (simp del: length_drop length_take)
    with length_pkcs7_pad [of pt] show ?thesis by (metis mod_add_self1)
  qed
  then have rest: "\<forall>q \<in> set (blocks (drop 16 pt @ ?pad)). length q = 16"
    by (rule blocks_length)
  have dec: "cbc_decrypt (aes256_decrypt_block lib key) iv'
          (blocks (cbc_encrypt (aes256_encrypt_block lib key) iv (blocks (pkcs7_pad pt))))
        = ?first @ (drop 16 pt @ ?pad)"
    unfolding bl
    using cbc_other_iv [OF assms(1) [unfolded good_block_cipher_def] t rest assms(2), of iv']
    by (simp add: concat_blocks)
  have "length (?first @ drop 16 pt) = length pt"
    using assms(2,3,4) t by (simp add: length_xor_block)
  then have "pkcs7_pad (?first @ drop 16 pt) = (?first @ drop 16 pt) @ ?pad"
    by (rule pkcs7_pad_same_length [where b = pt, simplified])
  then have "pkcs7_unpad (?first @ (drop 16 pt @ ?pad)) = Inr (?first @ drop 16 pt)"
    using pkcs7_unpad_pad [of "?first @ drop 16 pt"] by simp
  then show ?thesis
    using cipher_update_final_length [OF assms(1,2), of pt] dec
    by (simp add: decipher_update_final_def cipher_update_final_def)
qed

subsection \<open>Tokens made by encode\<close>

lemma js_dot: "js ''.'' = [46]"
  by (simp add: js_def)

lemma encode_latin1:
  assumes "JSON_stringify lib body = Some text" and "\<forall>c \<in> set text. c \<le> 255"
    and "length iv = 16" and "length (utf8_bytes (SECRET_ENCRYPTION_KEY cfg)) = 32"
  shows "encode lib cfg iv body =
     Send 200 (to_base64 (cipher_update_final lib (utf8_bytes (SECRET_ENCRYPTION_KEY cfg)) iv
                            (utf8_bytes (signed_block lib cfg text))),
               to_hex iv)"
  using assms by (simp add: encode_def btoa_latin1 createCipheriv_def signed_block_def Let_def)

lemma encode_not_latin1:
  assumes "JSON_stringify lib body = Some text" and "\<exists>c \<in> set text. 255 < c"
  shows "encode lib cfg iv body = Throws InvalidCharacterError"
  using assms by (simp add: encode_def btoa_not_latin1)

lemma decrypt_token_cipher:
  assumes "good_block_cipher (aes256_encrypt_block lib (utf8_bytes (SECRET_ENCRYPTION_KEY cfg)))
             (aes256_decrypt_block lib (utf8_bytes (SECRET_ENCRYPTION_KEY cfg)))"
    and "length (utf8_bytes (SECRET_ENCRYPTION_KEY cfg)) = 32" and "length iv = 16"
  shows "decrypt_token lib cfg
           (JString (to_base64 (cipher_update_final lib (utf8_bytes (SECRET_ENCRYPTION_KEY cfg)) iv pt)))
           (JString (to_hex iv))
         = (Inr pt, calls_to_decrypt)"
  using assms decipher_cipher [OF assms(1,3), of pt]
  by (simp add: decrypt_token_def and_then_pair did_def buffer_from_base64_to_base64
      buffer_from_hex_to_hex createCipheriv_def calls_to_decrypt_def)

lemma decrypt_token_other_iv:
  assumes "good_block_cipher (aes256_encrypt_block lib (utf8_bytes (SECRET_ENCRYPTION_KEY cfg)))
             (aes256_decrypt_block lib (utf8_bytes (SECRET_ENCRYPTION_KEY cfg)))"
    and "length (utf8_bytes (SECRET_ENCRYPTION_KEY cfg)) = 32" and "length iv = 16"
    and "length iv' = 16" and "16 \<le> length pt"
  shows "decrypt_token lib cfg
           (JString (to_base64 (cipher_update_final lib (utf8_bytes (SECRET_ENCRYPTION_KEY cfg)) iv pt)))
           (JString (to_hex iv'))
         = (Inr (xor_block (xor_block (take 16 pt) iv) iv' @ drop 16 pt), calls_to_decrypt)"
  using assms decipher_other_iv [OF assms(1,3,5,4)]
  by (simp add: decrypt_token_def and_then_pair did_def buffer_from_base64_to_base64
      buffer_from_hex_to_hex createCipheriv_def calls_to_decrypt_def)

lemma to_base64_ascii: "\<forall>c \<in> set (to_base64 buf). c < 128 \<and> c \<noteq> 46"
proof -
  have "\<forall>x \<in> set (map unat buf). x < 256"
  proof
    fix x assume "x \<in> set (map unat buf)"
    then obtain b :: byte where "x = unat b" by auto
    with unsigned_less [of b] show "x < 256" by simp
  qed
  then show ?thesis unfolding to_base64_def by (rule base64_encode_ascii)
qed

lemma signed_block_ascii:
  assumes "\<forall>c \<in> set text. c \<le> 255"
  shows "\<forall>c \<in> set (signed_block lib cfg text). c < 128"
proof -
  have "\<forall>x \<in> set text. x < 256" using assms by auto
  then have "\<forall>c \<in> set (base64_encode text). c < 128 \<and> c \<noteq> 46" by (rule base64_encode_ascii)
  then show ?thesis using to_base64_ascii by (auto simp: signed_block_def js_dot)
qed

lemma split_signed:
  assumes "\<forall>c \<in> set enc. c \<noteq> 46" and "\<forall>c \<in> set sg. c \<noteq> 46"
  shows "index (split (enc @ [46] @ sg) 46) 0 = Some enc"
    and "index (split (enc @ [46] @ sg) 46) 1 = Some sg"
proof -
  have t: "takeWhile (\<lambda>c. c \<noteq> 46) (enc @ 46 # sg) = enc"
    using assms(1) by (simp add: takeWhile_tail)
  have d: "dropWhile (\<lambda>c. c \<noteq> 46) (enc @ 46 # sg) = 46 # sg"
    using assms(1) by (simp add: dropWhile_append3)
  have s: "takeWhile (\<lambda>c. c \<noteq> 46) sg = sg" using assms(2) by simp
  show "index (split (enc @ [46] @ sg) 46) 0 = Some enc"
    by (simp add: index_split_0 t)
  show "index (split (enc @ [46] @ sg) 46) 1 = Some sg"
    by (simp add: index_split_1 d s)
qed

lemma verify_and_parse_signed_block:
  assumes "\<forall>c \<in> set text. c \<le> 255" and "text \<noteq> []"
  shows "verify_and_parse lib cfg (utf8_bytes (signed_block lib cfg text)) =
     (case JSON_parse lib text of
        None \<Rightarrow> (Inl SyntaxError, [Hmac_digest, Atob, JSON_parse_call])
      | Some v \<Rightarrow> (Inr (Send 200 v), [Hmac_digest, Atob, JSON_parse_call]))"
proof -
  let ?enc = "base64_encode text"
  let ?sg = "to_base64 (hmac_sha256 lib (utf8_bytes (SECRET_SIGNATURE_KEY cfg)) (buffer_from_base64 ?enc))"
  have lt: "\<forall>x \<in> set text. x < 256" using assms(1) by auto
  have e: "\<forall>c \<in> set ?enc. c < 128 \<and> c \<noteq> 46" using lt by (rule base64_encode_ascii)
  have u: "utf8_to_string (utf8_bytes (signed_block lib cfg text)) = ?enc @ [46] @ ?sg"
    using signed_block_ascii [OF assms(1), of lib cfg]
    by (simp add: utf8_round_trip_ascii) (simp add: signed_block_def js_dot)
  have e': "\<forall>c \<in> set ?enc. c \<noteq> 46" using e by simp
  have s': "\<forall>c \<in> set ?sg. c \<noteq> 46" using to_base64_ascii by simp
  have i0: "index (split (?enc @ [46] @ ?sg) 46) 0 = Some ?enc"
    using e' s' by (rule split_signed(1))
  have i1: "index (split (?enc @ [46] @ ?sg) 46) (Suc 0) = Some ?sg"
    using split_signed(2) [OF e' s'] by simp
  have ne: "?enc \<noteq> []" using assms(2) by (simp add: base64_encode_Nil)
  show ?thesis
    unfolding verify_and_parse_def u
    using ne
    by (simp add: Let_def i0 i1 and_then_pair did_def return_logged_def atob_base64_encode [OF lt]
        split: option.splits del: append.simps split.simps)
qed

subsection \<open>The sample platform\<close>

lemma length_base64_encode: "length (base64_encode xs) = 4 * ((length xs + 2) div 3)"
proof (induction xs rule: base64_encode.induct)
  case (1 a b c rest)
  have "(length rest + 2 + 3) div 3 = (length rest + 2) div 3 + 1" by (rule div_add_self2) simp
  with 1 show ?case by (simp add: add.commute)
qed simp_all

lemma length_to_base64: "length (to_base64 buf) = 4 * ((length buf + 2) div 3)"
  by (simp add: to_base64_def length_base64_encode)

lemma sample_key: "utf8_bytes (SECRET_ENCRYPTION_KEY sample_config) = map of_nat (js ''0123456789abcdef0123456789abcdef'')"
  by (simp add: sample_config_def js_def utf8_of_code_point_def)

lemma sample_key_length: "length (utf8_bytes (SECRET_ENCRYPTION_KEY sample_config)) = 32"
  by (simp add: sample_key js_def)

lemma sample_block_cipher: "16 \<le> length key \<Longrightarrow> good_block_cipher (sample_encrypt_block key) (sample_decrypt_block key)"
  by (simp add: good_block_cipher_def sample_encrypt_block_def sample_decrypt_block_def
      length_xor_block xor_block_cancel)

lemma sample_platform_ok: "platform_ok sample_platform sample_config"
  using sample_key_length
  by (simp add: platform_ok_def sample_platform_def sample_block_cipher sample_hmac_def Let_def)

lemma stringify_name_Ada: "stringify (Jobj [(js ''name'', Jstr (js ''Ada''))]) = [123, 34, 110, 97, 109, 101, 34, 58, 34, 65, 100, 97, 34, 125]"
  by (simp add: js_def quote_def escape_char_def)

lemma properties_Nil: "properties [] = []"
  by (simp add: properties_def)

lemma properties_single: "\<not> is_digit c \<Longrightarrow> properties [(c # cs, v)] = [(c # cs, v)]"
  by (simp add: properties_def is_index_def)

lemma sample_parse_name_Ada: "sample_parse [123, 34, 110, 97, 109, 101, 34, 58, 34, 65, 100, 97, 34, 125] = Some (Jobj [(js ''name'', Jstr (js ''Ada''))])"
  by (simp add: sample_parse_def eval_nat_numeral skip_ws_def js_def Let_def properties_single is_digit_def)

lemma sample_parse_empty_object: "sample_parse [123, 125] = Some (Jobj [])"
  by (simp add: sample_parse_def eval_nat_numeral skip_ws_def js_def Let_def properties_Nil)

lemma buffer_from_base64_e30_space: "buffer_from_base64 (js ''e30 '') = [123, 125]"
  by (simp add: buffer_from_base64_def js_def unbase64_def base64_value_def Let_def List.map_filter_simps)

lemma atob_e30_space: "atob (js ''e30 '') = Inr [123, 125]"
  by (simp add: atob_def js_def ascii_whitespace_def strip_padding_def base64_value_def Let_def)

lemma base64_encode_braces: "base64_encode [123, 125] = js ''e30=''"
  by (simp add: js_def base64_char_def)

lemma buffer_from_hex_potato: "buffer_from_hex (js ''potato'') = []"
  by (simp add: js_def unhex_def hex_value_def)

subsection \<open>Decoding a ciphered block\<close>

lemma truthy_token:
  assumes "platform_ok lib cfg" and "length iv = 16"
  shows "truthy (JString (to_base64 (cipher_update_final lib (utf8_bytes (SECRET_ENCRYPTION_KEY cfg)) iv pt)))"
    and "truthy (JString (to_hex iv))"
proof -
  have "cipher_update_final lib (utf8_bytes (SECRET_ENCRYPTION_KEY cfg)) iv pt \<noteq> []"
    using assms by (intro cipher_update_final_length(2)) (simp_all add: platform_ok_def)
  then have "length (to_base64 (cipher_update_final lib (utf8_bytes (SECRET_ENCRYPTION_KEY cfg)) iv pt)) \<noteq> 0"
    unfolding length_to_base64 by (cases "cipher_update_final lib (utf8_bytes (SECRET_ENCRYPTION_KEY cfg)) iv pt") simp_all
  then show "truthy (JString (to_base64 (cipher_update_final lib (utf8_bytes (SECRET_ENCRYPTION_KEY cfg)) iv pt)))"
    by simp
  have "length (to_hex iv) = 32" using assms(2) by (simp add: length_to_hex)
  then show "truthy (JString (to_hex iv))" by auto
qed

text \<open>Decoding the token that ciphers \<open>pt\<close> under \<open>iv\<close>, with the context of \<open>iv\<close>.\<close>

lemma decode_of_cipher:
  assumes "platform_ok lib cfg" and "length iv = 16"
  shows "decode lib cfg
           \<lparr> body_token = JString (to_base64 (cipher_update_final lib (utf8_bytes (SECRET_ENCRYPTION_KEY cfg)) iv pt)),
             body_context = JString (to_hex iv) \<rparr>
         = (case verify_and_parse lib cfg pt of
              (Inl e, l) \<Rightarrow> (Next_RouterError 400 ''InvalidParams'', calls_to_decrypt @ l)
            | (Inr outcome, l) \<Rightarrow> (outcome, calls_to_decrypt @ l))"
proof -
  have d: "decrypt_token lib cfg
      (JString (to_base64 (cipher_update_final lib (utf8_bytes (SECRET_ENCRYPTION_KEY cfg)) iv pt)))
      (JString (to_hex iv)) = (Inr pt, calls_to_decrypt)"
    using assms by (intro decrypt_token_cipher) (simp_all add: platform_ok_def)
  show ?thesis
    using truthy_token [OF assms] d
    by (intro decode_after_decrypt [THEN trans]) simp_all
qed

lemma decode_of_cipher_other_iv:
  assumes "platform_ok lib cfg" and "length iv = 16" and "length iv' = 16" and "16 \<le> length pt"
  shows "decode lib cfg
           \<lparr> body_token = JString (to_base64 (cipher_update_final lib (utf8_bytes (SECRET_ENCRYPTION_KEY cfg)) iv pt)),
             body_context = JString (to_hex iv') \<rparr>
         = (case verify_and_parse lib cfg (xor_block (xor_block (take 16 pt) iv) iv' @ drop 16 pt) of
              (Inl e, l) \<Rightarrow> (Next_RouterError 400 ''InvalidParams'', calls_to_decrypt @ l)
            | (Inr outcome, l) \<Rightarrow> (outcome, calls_to_decrypt @ l))"
proof -
  have d: "decrypt_token lib cfg
      (JString (to_base64 (cipher_update_final lib (utf8_bytes (SECRET_ENCRYPTION_KEY cfg)) iv pt)))
      (JString (to_hex iv')) = (Inr (xor_block (xor_block (take 16 pt) iv) iv' @ drop 16 pt), calls_to_decrypt)"
    using assms by (intro decrypt_token_other_iv) (simp_all add: platform_ok_def)
  show ?thesis
    using truthy_token(1) [OF assms(1,2)] truthy_token(2) [OF assms(1,3)] d
    by (intro decode_after_decrypt [THEN trans]) simp_all
qed

lemma round_trip_latin1:
  assumes "platform_ok lib cfg" and "length iv = 16"
    and "JSON_stringify lib body = Some text" and "text \<noteq> []" and "\<forall>c \<in> set text. c \<le> 255"
    and "JSON_parse lib text = Some body"
  shows "\<exists>tok ctx. encode lib cfg iv body = Send 200 (tok, ctx) \<and>
           decode lib cfg \<lparr>body_token = JString tok, body_context = JString ctx\<rparr>
             = (Send 200 body, calls_to_decrypt @ [Hmac_digest, Atob, JSON_parse_call])"
proof -
  have k: "length (utf8_bytes (SECRET_ENCRYPTION_KEY cfg)) = 32"
    using assms(1) by (simp add: platform_ok_def)
  have "encode lib cfg iv body =
     Send 200 (to_base64 (cipher_update_final lib (utf8_bytes (SECRET_ENCRYPTION_KEY cfg)) iv
                            (utf8_bytes (signed_block lib cfg text))), to_hex iv)"
    using assms(3,5,2) k by (rule encode_latin1)
  moreover have "decode lib cfg
      \<lparr> body_token = JString (to_base64 (cipher_update_final lib (utf8_bytes (SECRET_ENCRYPTION_KEY cfg)) iv
                            (utf8_bytes (signed_block lib cfg text)))),
        body_context = JString (to_hex iv) \<rparr>
      = (Send 200 body, calls_to_decrypt @ [Hmac_digest, Atob, JSON_parse_call])"
    using assms(6)
    by (simp add: decode_of_cipher [OF assms(1,2)] verify_and_parse_signed_block [OF assms(5,4)])
  ultimately show ?thesis by blast
qed

subsection \<open>Decoding under another context\<close>


lemma verify_and_parse_text:
  assumes "\<forall>c \<in> set enc. c < 128 \<and> c \<noteq> 46" and "enc \<noteq> []"
    and "\<forall>c \<in> set sg. c < 128 \<and> c \<noteq> 46"
  shows "verify_and_parse lib cfg (utf8_bytes (enc @ [46] @ sg)) =
     (if sg \<noteq> to_base64 (hmac_sha256 lib (utf8_bytes (SECRET_SIGNATURE_KEY cfg)) (buffer_from_base64 enc))
      then (Inr (Next_RouterError 400 ''Unauthorized''), [Hmac_digest])
      else case atob enc of
             Inl e \<Rightarrow> (Inl e, [Hmac_digest, Atob])
           | Inr text \<Rightarrow>
               (case JSON_parse lib text of
                  None \<Rightarrow> (Inl SyntaxError, [Hmac_digest, Atob, JSON_parse_call])
                | Some v \<Rightarrow> (Inr (Send 200 v), [Hmac_digest, Atob, JSON_parse_call])))"
proof -
  have "\<forall>c \<in> set (enc @ [46] @ sg). c < 128" using assms(1,3) by auto
  then have u: "utf8_to_string (utf8_bytes (enc @ [46] @ sg)) = enc @ [46] @ sg"
    by (rule utf8_round_trip_ascii)
  have e': "\<forall>c \<in> set enc. c \<noteq> 46" using assms(1) by simp
  have s': "\<forall>c \<in> set sg. c \<noteq> 46" using assms(3) by simp
  have i0: "index (split (enc @ [46] @ sg) 46) 0 = Some enc"
    using e' s' by (rule split_signed(1))
  have i1: "index (split (enc @ [46] @ sg) 46) (Suc 0) = Some sg"
    using split_signed(2) [OF e' s'] by simp
  show ?thesis
    unfolding verify_and_parse_def u
    using assms(2)
    by (simp add: Let_def i0 i1 and_then_pair did_def return_logged_def
        split: option.splits sum.splits del: append.simps split.simps)
qed

lemma xor_block_append:
  "length a = length c \<Longrightarrow> xor_block (a @ b) (c @ d) = xor_block a c @ xor_block b d"
  by (simp add: xor_block_def)

lemma xor_block_zero: "length a = n \<Longrightarrow> xor_block a (replicate n 0) = a"
  unfolding xor_block_def
  by (induction a arbitrary: n) (auto simp: replicate_app_Cons_same Suc_length_conv)

lemma xor_block_other:
  "length f = length a \<Longrightarrow> length a = length d \<Longrightarrow>
   xor_block (xor_block f a) (xor_block a d) = xor_block f d"
  unfolding xor_block_def
proof (induction f a d rule: list_induct3)
  case Nil
  show ?case by simp
next
  case (Cons x xs y ys z zs)
  have "(x XOR y) XOR (y XOR z) = x XOR z"
    by (metis xor.assoc xor_self_eq xor.left_neutral)
  with Cons show ?case by simp
qed


lemma signed_block_braces:
  "signed_block lib cfg [123, 125] =
     [101, 51, 48, 61] @ [46] @
     to_base64 (hmac_sha256 lib (utf8_bytes (SECRET_SIGNATURE_KEY cfg)) [123, 125])"
proof -
  have "buffer_from_base64 (base64_encode [123, 125]) = map of_nat [123, 125]"
    by (rule buffer_from_base64_encode) simp
  then show ?thesis
    by (simp add: signed_block_def js_dot) (simp add: base64_char_def)
qed

lemma altered_first_block:
  fixes sg :: jsstring
  assumes "11 \<le> length sg" and "length ivA = 16"
  shows "xor_block (xor_block (take 16 (map of_nat ([101, 51, 48, 61] @ [46] @ sg))) ivA)
           (xor_block ivA (replicate 3 0 @ [29] @ replicate 12 0))
         @ drop 16 (map of_nat ([101, 51, 48, 61] @ [46] @ sg))
       = (map of_nat ([101, 51, 48, 32] @ [46] @ sg) :: buffer)"
proof -
  let ?delta = "replicate 3 0 @ [29] @ replicate 12 (0 :: byte)"
  let ?S = "map of_nat ([101, 51, 48, 61] @ [46] @ sg) :: buffer"
  have d: "?delta = [0, 0, 0, 29, 0] @ replicate 11 0"
    by (simp add: eval_nat_numeral)
  have t: "take 16 ?S = [101, 51, 48, 61, 46] @ map of_nat (take 11 sg)"
    by (simp add: take_map)
  have dr: "drop 16 ?S = map of_nat (drop 11 sg)"
    by (simp add: drop_map)
  have l: "length (take 16 ?S) = 16" using assms(1) by simp
  have ld: "length ?delta = 16" by simp
  have "xor_block (xor_block (take 16 ?S) ivA) (xor_block ivA ?delta) = xor_block (take 16 ?S) ?delta"
    using l assms(2) ld by (intro xor_block_other) simp_all
  also have "\<dots> = xor_block [101, 51, 48, 61, 46] [0, 0, 0, 29, 0]
                  @ xor_block (map of_nat (take 11 sg)) (replicate 11 0)"
    unfolding t d by (rule xor_block_append) simp
  also have "xor_block (map of_nat (take 11 sg)) (replicate 11 0) = (map of_nat (take 11 sg) :: buffer)"
    using assms(1) by (intro xor_block_zero) simp
  also have "xor_block [101, 51, 48, 61, 46] [0, 0, 0, 29, 0] = ([101, 51, 48, 32, 46] :: buffer)"
    by (simp add: xor_block_def)
  finally have "xor_block (xor_block (take 16 ?S) ivA) (xor_block ivA ?delta) @ drop 16 ?S
      = [101, 51, 48, 32, 46] @ map of_nat (take 11 sg) @ map of_nat (drop 11 sg)"
    unfolding dr by simp
  also have "\<dots> = map of_nat ([101, 51, 48, 32] @ [46] @ sg)"
    by (simp flip: map_append)
  finally show ?thesis .
qed

text \<open>The token of the payload whose JSON text is \<^verbatim>\<open>{}\<close> is accepted under every context
  that differs from its own by 29 (\<^verbatim>\<open>=\<close> to a space) in the fourth byte.\<close>

lemma other_context_accepted:
  assumes "platform_ok lib cfg" and "length ivA = 16"
    and "JSON_stringify lib body = Some [123, 125]" and "JSON_parse lib [123, 125] = Some body"
  shows "encode lib cfg ivA body =
           Send 200 (to_base64 (cipher_update_final lib (utf8_bytes (SECRET_ENCRYPTION_KEY cfg)) ivA
                       (utf8_bytes (signed_block lib cfg [123, 125]))), to_hex ivA)"
    and "fst (decode lib cfg
           \<lparr> body_token = JString (to_base64 (cipher_update_final lib
                 (utf8_bytes (SECRET_ENCRYPTION_KEY cfg)) ivA
                 (utf8_bytes (signed_block lib cfg [123, 125])))),
             body_context = JString (to_hex (xor_block ivA (replicate 3 0 @ [29] @ replicate 12 0))) \<rparr>)
         = Send 200 body"
proof -
  let ?sg = "to_base64 (hmac_sha256 lib (utf8_bytes (SECRET_SIGNATURE_KEY cfg)) [123, 125])"
  let ?ivB = "xor_block ivA (replicate 3 0 @ [29] @ replicate 12 0)"
  have k: "length (utf8_bytes (SECRET_ENCRYPTION_KEY cfg)) = 32"
    using assms(1) by (simp add: platform_ok_def)
  show "encode lib cfg ivA body =
           Send 200 (to_base64 (cipher_update_final lib (utf8_bytes (SECRET_ENCRYPTION_KEY cfg)) ivA
                       (utf8_bytes (signed_block lib cfg [123, 125]))), to_hex ivA)"
    using assms(3) _ assms(2) k by (rule encode_latin1) simp
  have lsg: "length ?sg = 44" using assms(1) by (simp add: length_to_base64 platform_ok_def)
  have asg: "\<forall>c \<in> set ?sg. c < 128 \<and> c \<noteq> 46" by (rule to_base64_ascii)
  have S: "utf8_bytes (signed_block lib cfg [123, 125]) = map of_nat ([101, 51, 48, 61] @ [46] @ ?sg)"
    unfolding signed_block_braces using asg by (intro utf8_bytes_ascii) auto
  have lS: "16 \<le> length (utf8_bytes (signed_block lib cfg [123, 125]))"
    unfolding S using lsg by simp
  have lB: "length ?ivB = 16" using assms(2) by (simp add: length_xor_block)
  have alt: "xor_block (xor_block (take 16 (utf8_bytes (signed_block lib cfg [123, 125]))) ivA) ?ivB
               @ drop 16 (utf8_bytes (signed_block lib cfg [123, 125]))
             = utf8_bytes ([101, 51, 48, 32] @ [46] @ ?sg)"
  proof -
    have "utf8_bytes ([101, 51, 48, 32] @ [46] @ ?sg) = map of_nat ([101, 51, 48, 32] @ [46] @ ?sg)"
      using asg by (intro utf8_bytes_ascii) auto
    moreover have "11 \<le> length ?sg" using lsg by simp
    ultimately show ?thesis
      unfolding S using altered_first_block [of ?sg ivA] assms(2) by simp
  qed
  have b: "buffer_from_base64 [101, 51, 48, 32] = [123, 125]"
    using buffer_from_base64_e30_space by (simp add: js_def)
  have a: "atob [101, 51, 48, 32] = Inr [123, 125]"
    using atob_e30_space by (simp add: js_def)
  have v: "verify_and_parse lib cfg (utf8_bytes ([101, 51, 48, 32] @ [46] @ ?sg))
             = (Inr (Send 200 body), [Hmac_digest, Atob, JSON_parse_call])"
    using asg assms(4)
    by (subst verify_and_parse_text) (simp_all add: b a)
  show "fst (decode lib cfg
           \<lparr> body_token = JString (to_base64 (cipher_update_final lib
                 (utf8_bytes (SECRET_ENCRYPTION_KEY cfg)) ivA
                 (utf8_bytes (signed_block lib cfg [123, 125])))),
             body_context = JString (to_hex ?ivB) \<rparr>)
         = Send 200 body"
    using decode_of_cipher_other_iv [OF assms(1,2) lB lS] unfolding alt v by simp
qed

lemma base64_longer: "xs \<noteq> [] \<Longrightarrow> length xs < length (base64_encode xs)"
proof -
  assume "xs \<noteq> []"
  then have "0 < length xs" by simp
  moreover have "length xs + 2 = 3 * ((length xs + 2) div 3) + (length xs + 2) mod 3"
    by simp
  moreover have "(length xs + 2) mod 3 < 3" by simp
  ultimately have "length xs < 4 * ((length xs + 2) div 3)" by linarith
  then show ?thesis by (simp add: length_base64_encode)
qed

lemma utf8_bytes_base64_differs:
  assumes "text \<noteq> []" and "\<forall>c \<in> set text. c \<le> 255"
  shows "utf8_bytes (base64_encode text) \<noteq> map of_nat text"
proof
  assume e: "utf8_bytes (base64_encode text) = map of_nat text"
  have "\<forall>x \<in> set text. x < 256" using assms(2) by auto
  then have "\<forall>c \<in> set (base64_encode text). c < 128"
    using base64_encode_ascii [of "text"] by simp
  then have "utf8_bytes (base64_encode text) = map of_nat (base64_encode text)"
    by (rule utf8_bytes_ascii)
  with e have "length (base64_encode text) = length text"
    by (metis length_map)
  with base64_longer [OF assms(1)] show False by simp
qed

subsection \<open>What a successful decode has checked\<close>

text \<open>Decode succeeds only on a plaintext whose second part is the base64 text of the HMAC of
  the bytes of its first part, and the payload it returns is read from that first part.\<close>

lemma decode_success_is_signed:
  assumes "fst (decode lib cfg body) = Send 200 p"
  shows "\<exists>decrypted encoded text.
           decrypt_token lib cfg (body_token body) (body_context body) = (Inr decrypted, calls_to_decrypt) \<and>
           index (split (utf8_to_string decrypted) 46) 0 = Some encoded \<and>
           index (split (utf8_to_string decrypted) 46) 1 =
             Some (to_base64 (hmac_sha256 lib (utf8_bytes (SECRET_SIGNATURE_KEY cfg))
                     (buffer_from_base64 encoded))) \<and>
           atob encoded = Inr text \<and> JSON_parse lib text = Some p"
proof -
  have t: "truthy (body_token body)" "truthy (body_context body)"
    using assms by (auto simp: decode_def split: if_splits)
  obtain r l where d: "decrypt_token lib cfg (body_token body) (body_context body) = (r, l)"
    by (cases "decrypt_token lib cfg (body_token body) (body_context body)")
  show ?thesis
  proof (cases r)
    case (Inl e)
    with assms t d show ?thesis
      by (simp add: decode_def decode_try_def and_then_pair)
  next
    case (Inr decrypted)
    with d have d': "decrypt_token lib cfg (body_token body) (body_context body) = (Inr decrypted, l)"
      by simp
    then have l: "l = calls_to_decrypt"
      unfolding calls_to_decrypt_def by (rule decrypt_token_Inr)
    have "fst (decode lib cfg body) =
        (case fst (verify_and_parse lib cfg decrypted) of
           Inl e \<Rightarrow> Next_RouterError 400 ''InvalidParams'' | Inr outcome \<Rightarrow> outcome)"
      using decode_after_decrypt [OF t d']
      by (cases "verify_and_parse lib cfg decrypted") (simp split: sum.splits)
    with assms have v: "fst (verify_and_parse lib cfg decrypted) = Inr (Send 200 p)"
      by (simp split: sum.splits)
    then have "\<exists>encoded text.
           index (split (utf8_to_string decrypted) 46) 0 = Some encoded \<and>
           index (split (utf8_to_string decrypted) 46) 1 =
             Some (to_base64 (hmac_sha256 lib (utf8_bytes (SECRET_SIGNATURE_KEY cfg))
                     (buffer_from_base64 encoded))) \<and>
           atob encoded = Inr text \<and> JSON_parse lib text = Some p"
      by (auto simp: verify_and_parse_def Let_def and_then_pair did_def return_logged_def
          split: option.splits sum.splits if_splits)
    with d' l show ?thesis by blast
  qed
qed

subsection \<open>Failures of the try block\<close>

lemma decrypt_token_explicit:
  "decrypt_token lib cfg t c =
     (case buffer_from t Base64 of
        Inl e \<Rightarrow> (Inl e, [Buffer_from_base64])
      | Inr ct \<Rightarrow>
     (case buffer_from c Hex of
        Inl e \<Rightarrow> (Inl e, [Buffer_from_base64, Buffer_from_hex])
      | Inr iv \<Rightarrow>
     (case createCipheriv (utf8_bytes (SECRET_ENCRYPTION_KEY cfg)) iv of
        Inl e \<Rightarrow> (Inl e, [Buffer_from_base64, Buffer_from_hex, CreateDecipheriv])
      | Inr u \<Rightarrow>
          (decipher_update_final lib (utf8_bytes (SECRET_ENCRYPTION_KEY cfg)) iv ct,
           calls_to_decrypt))))"
  by (simp add: decrypt_token_def and_then_pair did_def Let_def calls_to_decrypt_def
      split: sum.splits)

lemma decode_decrypt_failure:
  assumes "truthy (body_token body)" and "truthy (body_context body)"
    and "decrypt_token lib cfg (body_token body) (body_context body) = (Inl e, l)"
  shows "decode lib cfg body = (Next_RouterError 400 ''InvalidParams'', l)"
  using assms by (simp add: decode_def decode_try_def and_then_Inl)

lemma pkcs7_unpad_bad:
  assumes "unat (last P) = 0 \<or> 16 < unat (last P) \<or>
           drop (length P - unat (last P)) P \<noteq> replicate (unat (last P)) (last P)"
  shows "pkcs7_unpad P = Inl ERR_OSSL_BAD_DECRYPT"
  using assms by (auto simp: pkcs7_unpad_def Let_def)

lemma decode_never_throws: "fst (decode lib cfg body) \<noteq> Throws e"
  using decode_outcomes [of lib cfg body] by auto

lemma buffer_from_base64_e30_bang: "buffer_from_base64 (js ''e30!'') = [123, 125]"
  by (simp add: buffer_from_base64_def js_def unbase64_def base64_value_def Let_def List.map_filter_simps)

lemma atob_e30_bang: "atob (js ''e30!'') = Inl InvalidCharacterError"
  by (simp add: atob_def js_def ascii_whitespace_def strip_padding_def base64_value_def Let_def)

lemma to_base64_not_Nil: "buf \<noteq> [] \<Longrightarrow> to_base64 buf \<noteq> []"
proof -
  assume "buf \<noteq> []"
  then have "length (to_base64 buf) \<noteq> 0"
    unfolding length_to_base64 by (cases buf) simp_all
  then show ?thesis by simp
qed

lemma zero_block: "replicate 16 (0 :: byte) = [0, 0, 0, 0, 0, 0, 0, 0, 0, 0, 0, 0, 0, 0, 0, 0]"
  by (simp add: numeral_eq_Suc)

lemma sample_decrypt_zero_block:
  "cbc_decrypt (aes256_decrypt_block sample_platform (utf8_bytes (SECRET_ENCRYPTION_KEY sample_config)))
     (replicate 16 0) (blocks (replicate 16 0))
   = [48, 49, 50, 51, 52, 53, 54, 55, 56, 57, 97, 98, 99, 100, 101, 102]"
  unfolding zero_block
  by (simp add: sample_platform_def sample_key sample_decrypt_block_def xor_block_def js_def)

lemma short_key_length:
  "length (utf8_bytes (SECRET_ENCRYPTION_KEY (sample_config\<lparr>SECRET_ENCRYPTION_KEY := js ''short''\<rparr>))) = 5"
  by (simp add: js_def utf8_of_code_point_def)

subsection \<open>The parts of a plaintext\<close>

lemma parts_of_text:
  assumes "\<forall>c \<in> set enc. c \<noteq> 46" and "\<forall>c \<in> set sg. c \<noteq> 46"
  shows "takeWhile (\<lambda>c. c \<noteq> 46) (enc @ 46 # sg) = enc"
    and "46 \<in> set (enc @ 46 # sg)"
    and "takeWhile (\<lambda>c. c \<noteq> 46) (tl (dropWhile (\<lambda>c. c \<noteq> 46) (enc @ 46 # sg))) = sg"
proof -
  show "takeWhile (\<lambda>c. c \<noteq> 46) (enc @ 46 # sg) = enc"
    using assms(1) by (simp add: takeWhile_tail)
  show "46 \<in> set (enc @ 46 # sg)" by simp
  have "dropWhile (\<lambda>c. c \<noteq> 46) (enc @ 46 # sg) = 46 # sg"
    using assms(1) by (simp add: dropWhile_append3)
  then show "takeWhile (\<lambda>c. c \<noteq> 46) (tl (dropWhile (\<lambda>c. c \<noteq> 46) (enc @ 46 # sg))) = sg"
    using assms(2) by simp
qed

lemma altered_fourth_byte:
  fixes sg :: jsstring
  assumes "11 \<le> length sg" and "length ivA = 16" and "(61 :: byte) XOR x = of_nat y"
  shows "xor_block (xor_block (take 16 (map of_nat ([101, 51, 48, 61] @ [46] @ sg))) ivA)
           (xor_block ivA (replicate 3 0 @ [x] @ replicate 12 0))
         @ drop 16 (map of_nat ([101, 51, 48, 61] @ [46] @ sg))
       = (map of_nat ([101, 51, 48, y] @ [46] @ sg) :: buffer)"
proof -
  let ?delta = "replicate 3 0 @ [x] @ replicate 12 (0 :: byte)"
  let ?S = "map of_nat ([101, 51, 48, 61] @ [46] @ sg) :: buffer"
  have d: "?delta = [0, 0, 0, x, 0] @ replicate 11 0"
    by (simp add: eval_nat_numeral)
  have t: "take 16 ?S = [101, 51, 48, 61, 46] @ map of_nat (take 11 sg)"
    by (simp add: take_map)
  have dr: "drop 16 ?S = map of_nat (drop 11 sg)"
    by (simp add: drop_map)
  have l: "length (take 16 ?S) = 16" using assms(1) by simp
  have ld: "length ?delta = 16" by simp
  have "xor_block (xor_block (take 16 ?S) ivA) (xor_block ivA ?delta) = xor_block (take 16 ?S) ?delta"
    using l assms(2) ld by (intro xor_block_other) simp_all
  also have "\<dots> = xor_block [101, 51, 48, 61, 46] [0, 0, 0, x, 0]
                  @ xor_block (map of_nat (take 11 sg)) (replicate 11 0)"
    unfolding t d by (rule xor_block_append) simp
  also have "xor_block (map of_nat (take 11 sg)) (replicate 11 0) = (map of_nat (take 11 sg) :: buffer)"
    using assms(1) by (intro xor_block_zero) simp
  also have "xor_block [101, 51, 48, 61, 46] [0, 0, 0, x, 0] = ([101, 51, 48, of_nat y, 46] :: buffer)"
    using assms(3) by (simp add: xor_block_def)
  finally have "xor_block (xor_block (take 16 ?S) ivA) (xor_block ivA ?delta) @ drop 16 ?S
      = [101, 51, 48, of_nat y, 46] @ map of_nat (take 11 sg) @ map of_nat (drop 11 sg)"
    unfolding dr by simp
  also have "\<dots> = map of_nat ([101, 51, 48, y] @ [46] @ sg)"
    by (simp flip: map_append)
  finally show ?thesis .
qed

lemma altered_sample_block:
  "xor_block (xor_block (take 16 (utf8_bytes (signed_block sample_platform sample_config [123, 125])))
       [0, 0, 0, 0, 0, 0, 0, 0, 0, 0, 0, 0, 0, 0, 0, 0])
     [0, 0, 0, 28, 0, 0, 0, 0, 0, 0, 0, 0, 0, 0, 0, 0]
   @ drop 16 (utf8_bytes (signed_block sample_platform sample_config [123, 125]))
   = utf8_bytes (js ''e30!'' @ 46 #
       to_base64 (hmac_sha256 sample_platform (utf8_bytes (SECRET_SIGNATURE_KEY sample_config)) [123, 125]))"
proof -
  let ?sg = "to_base64 (hmac_sha256 sample_platform (utf8_bytes (SECRET_SIGNATURE_KEY sample_config)) [123, 125])"
  let ?ivA = "[0, 0, 0, 0, 0, 0, 0, 0, 0, 0, 0, 0, 0, 0, 0, 0] :: buffer"
  have lsg: "length ?sg = 44"
    using sample_platform_ok by (simp add: length_to_base64 platform_ok_def)
  have asg: "\<forall>c \<in> set ?sg. c < 128 \<and> c \<noteq> 46" by (rule to_base64_ascii)
  have S: "utf8_bytes (signed_block sample_platform sample_config [123, 125])
             = map of_nat ([101, 51, 48, 61] @ [46] @ ?sg)"
    unfolding signed_block_braces using asg by (intro utf8_bytes_ascii) auto
  have x: "xor_block ?ivA (replicate 3 0 @ [28] @ replicate 12 0)
             = [0, 0, 0, 28, 0, 0, 0, 0, 0, 0, 0, 0, 0, 0, 0, 0]"
    by (simp add: xor_block_def numeral_eq_Suc)
  have "utf8_bytes (js ''e30!'' @ 46 # ?sg) = map of_nat (js ''e30!'' @ 46 # ?sg)"
    using asg by (intro utf8_bytes_ascii) (auto simp: js_def)
  also have "\<dots> = map of_nat ([101, 51, 48, 33] @ [46] @ ?sg)"
    by (simp add: js_def)
  finally have r: "utf8_bytes (js ''e30!'' @ 46 # ?sg) = map of_nat ([101, 51, 48, 33] @ [46] @ ?sg)" .
  have "11 \<le> length ?sg" using lsg by simp
  then show ?thesis
    unfolding S r using altered_fourth_byte [of ?sg ?ivA 28 33] unfolding x by simp
qed

lemma parts_of_text_more:
  assumes "\<forall>c \<in> set enc. c \<noteq> 46" and "\<forall>c \<in> set sg. c \<noteq> 46"
  shows "takeWhile (\<lambda>c. c \<noteq> 46) (enc @ 46 # sg @ 46 # rest) = enc"
    and "46 \<in> set (enc @ 46 # sg @ 46 # rest)"
    and "tl (dropWhile (\<lambda>c. c \<noteq> 46) (enc @ 46 # sg @ 46 # rest)) = sg @ 46 # rest"
    and "takeWhile (\<lambda>c. c \<noteq> 46) (tl (dropWhile (\<lambda>c. c \<noteq> 46) (enc @ 46 # sg @ 46 # rest))) = sg"
proof -
  show "takeWhile (\<lambda>c. c \<noteq> 46) (enc @ 46 # sg @ 46 # rest) = enc"
    using assms(1) by (simp add: takeWhile_tail)
  show "46 \<in> set (enc @ 46 # sg @ 46 # rest)" by simp
  show d: "tl (dropWhile (\<lambda>c. c \<noteq> 46) (enc @ 46 # sg @ 46 # rest)) = sg @ 46 # rest"
    using assms(1) by (simp add: dropWhile_append3)
  show "takeWhile (\<lambda>c. c \<noteq> 46) (tl (dropWhile (\<lambda>c. c \<noteq> 46) (enc @ 46 # sg @ 46 # rest))) = sg"
    unfolding d using assms(2) by (simp add: takeWhile_tail)
qed

lemma buffer_from_base64_e30: "buffer_from_base64 (js ''e30='') = [123, 125]"
  using buffer_from_base64_encode [of "[123, 125]"] by (simp add: base64_char_def js_def)

lemma atob_e30: "atob (js ''e30='') = Inr [123, 125]"
  using atob_base64_encode [of "[123, 125]"] by (simp add: base64_char_def js_def)

lemma signed_block_braces_js:
  "signed_block lib cfg [123, 125] =
     js ''e30='' @ 46 # to_base64 (hmac_sha256 lib (utf8_bytes (SECRET_SIGNATURE_KEY cfg)) [123, 125])"
  unfolding signed_block_braces by (simp add: js_def)

lemma digest_length:
  "length (to_base64 (hmac_sha256 sample_platform (utf8_bytes (SECRET_SIGNATURE_KEY sample_config)) data)) = 44"
  using sample_platform_ok by (simp add: length_to_base64 platform_ok_def)

section \<open>The claims\<close>

subsection \<open>C1: the round trip\<close>

text \<open>
  Claim C1 says that for every JSON-serializable payload, decode of what encode returns
  succeeds with the payload. The code does so when the JSON text of the payload holds
  only code units up to 255 (lemma \<open>round_trip_latin1\<close>). For any other payload
  \<^verbatim>\<open>btoa\<close> throws in line 27 and encode returns no token at all: here the payload
  \<^verbatim>\<open>{"name": "Lukasz"}\<close> written with U+0141 for its first letter, which is a JSON value
  that the JSON functions print and read back.
\<close>

theorem round_trip_breaks_outside_latin1:
  "JSON_stringify sample_platform (Jobj [(js ''name'', Jstr [321, 117, 107, 97, 115, 122])])
     = Some [123, 34, 110, 97, 109, 101, 34, 58, 34, 321, 117, 107, 97, 115, 122, 34, 125] \<and>
   JSON_parse sample_platform [123, 34, 110, 97, 109, 101, 34, 58, 34, 321, 117, 107, 97, 115, 122, 34, 125]
     = Some (Jobj [(js ''name'', Jstr [321, 117, 107, 97, 115, 122])]) \<and>
   encode sample_platform sample_config (replicate 16 0)
     (Jobj [(js ''name'', Jstr [321, 117, 107, 97, 115, 122])])
     = Throws InvalidCharacterError"
proof -
  have s: "JSON_stringify sample_platform (Jobj [(js ''name'', Jstr [321, 117, 107, 97, 115, 122])])
     = Some [123, 34, 110, 97, 109, 101, 34, 58, 34, 321, 117, 107, 97, 115, 122, 34, 125]"
    by (simp add: sample_platform_def js_def quote_def escape_char_def)
  have p: "JSON_parse sample_platform [123, 34, 110, 97, 109, 101, 34, 58, 34, 321, 117, 107, 97, 115, 122, 34, 125]
     = Some (Jobj [(js ''name'', Jstr [321, 117, 107, 97, 115, 122])])"
    by (simp add: sample_platform_def sample_parse_def eval_nat_numeral skip_ws_def js_def Let_def
          properties_single is_digit_def)
  have "encode sample_platform sample_config (replicate 16 0)
     (Jobj [(js ''name'', Jstr [321, 117, 107, 97, 115, 122])]) = Throws InvalidCharacterError"
    using s by (rule encode_not_latin1) simp
  with s p show ?thesis by simp
qed

subsection \<open>C3: a token under the context of another\<close>

text \<open>
  Claim C3, as amended. Let encode return \<open>(tokenA, contextA)\<close> for a payload whose JSON
  text holds only code units up to 255, under the IV \<open>ivA\<close>, and let \<open>contextB\<close> be the
  context of any IV \<open>ivB\<close> of 16 bytes. Decryption under \<open>ivB\<close> changes the signed block of
  A in its first 16 bytes only, which are XORed with \<open>ivA XOR ivB\<close>, and
  \<open>decode(tokenA, contextB)\<close> is lines 85 to 102 on that altered block: InvalidParams
  when the text before its first \<^verbatim>\<open>.\<close> is empty; Unauthorized when the text between its
  first \<^verbatim>\<open>.\<close> and its second is not the base64 text of the HMAC of the decoded bytes of
  the text before the first \<^verbatim>\<open>.\<close>; InvalidParams when the two signatures agree and
  \<^verbatim>\<open>atob\<close> or \<^verbatim>\<open>JSON.parse\<close> throws; and status 200 with the parsed payload otherwise.
  Nothing else binds the context to the token.
\<close>

theorem other_context_outcome:
  assumes "platform_ok lib cfg" and "length ivA = 16" and "length ivB = 16"
    and "JSON_stringify lib body = Some text" and "\<forall>c \<in> set text. c \<le> 255"
  shows "encode lib cfg ivA body =
           Send 200
             (to_base64 (cipher_update_final lib (utf8_bytes (SECRET_ENCRYPTION_KEY cfg)) ivA
                           (utf8_bytes (signed_block lib cfg text))),
              to_hex ivA) \<and>
         decode lib cfg
           \<lparr>body_token = JString (to_base64 (cipher_update_final lib
                             (utf8_bytes (SECRET_ENCRYPTION_KEY cfg)) ivA
                             (utf8_bytes (signed_block lib cfg text)))),
            body_context = JString (to_hex ivB)\<rparr> =
           (let plaintext = utf8_to_string
                  (xor_block (xor_block (take 16 (utf8_bytes (signed_block lib cfg text))) ivA) ivB
                   @ drop 16 (utf8_bytes (signed_block lib cfg text)));
                encoded = takeWhile (\<lambda>c. c \<noteq> 46) plaintext;
                signature = (if 46 \<in> set plaintext
                             then Some (takeWhile (\<lambda>c. c \<noteq> 46)
                                          (tl (dropWhile (\<lambda>c. c \<noteq> 46) plaintext)))
                             else None);
                calculated = to_base64 (hmac_sha256 lib (utf8_bytes (SECRET_SIGNATURE_KEY cfg))
                                          (buffer_from_base64 encoded))
            in if encoded = [] then (Next_RouterError 400 ''InvalidParams'', calls_to_decrypt)
               else if signature \<noteq> Some calculated
                 then (Next_RouterError 400 ''Unauthorized'', calls_to_decrypt @ [Hmac_digest])
               else case atob encoded of
                      Inl e \<Rightarrow> (Next_RouterError 400 ''InvalidParams'',
                                 calls_to_decrypt @ [Hmac_digest, Atob])
                    | Inr decoded_text \<Rightarrow>
                        (case JSON_parse lib decoded_text of
                           None \<Rightarrow> (Next_RouterError 400 ''InvalidParams'',
                                     calls_to_decrypt @ [Hmac_digest, Atob, JSON_parse_call])
                         | Some v \<Rightarrow> (Send 200 v,
                                       calls_to_decrypt @ [Hmac_digest, Atob, JSON_parse_call])))"
proof
  let ?key = "utf8_bytes (SECRET_ENCRYPTION_KEY cfg)"
  let ?S = "utf8_bytes (signed_block lib cfg text)"
  let ?tok = "JString (to_base64 (cipher_update_final lib ?key ivA ?S))"
  let ?ctx = "JString (to_hex ivB)"
  let ?request = "\<lparr>body_token = ?tok, body_context = ?ctx\<rparr>"
  have k: "length ?key = 32" "good_block_cipher (aes256_encrypt_block lib ?key) (aes256_decrypt_block lib ?key)"
    using assms(1) by (simp_all add: platform_ok_def)
  show "encode lib cfg ivA body = Send 200 (to_base64 (cipher_update_final lib ?key ivA ?S), to_hex ivA)"
    using assms(4,5,2) k(1) by (rule encode_latin1)
  have "?S = map of_nat (signed_block lib cfg text)"
    using signed_block_ascii [OF assms(5)] by (rule utf8_bytes_ascii)
  moreover have "length (to_base64 (hmac_sha256 lib (utf8_bytes (SECRET_SIGNATURE_KEY cfg))
                   (buffer_from_base64 (base64_encode text)))) = 44"
    using assms(1) by (simp add: length_to_base64 platform_ok_def)
  ultimately have lS: "16 \<le> length ?S"
    by (simp add: signed_block_def)
  have t: "truthy (body_token ?request)" "truthy (body_context ?request)"
    using truthy_token(1) [OF assms(1,2)] truthy_token(2) [OF assms(1,3)] by simp_all
  have d: "decrypt_token lib cfg (body_token ?request) (body_context ?request)
             = (Inr (xor_block (xor_block (take 16 ?S) ivA) ivB @ drop 16 ?S), calls_to_decrypt)"
    using decrypt_token_other_iv [OF k(2,1) assms(2,3) lS] by simp
  show "decode lib cfg ?request =
           (let plaintext = utf8_to_string
                  (xor_block (xor_block (take 16 ?S) ivA) ivB @ drop 16 ?S);
                encoded = takeWhile (\<lambda>c. c \<noteq> 46) plaintext;
                signature = (if 46 \<in> set plaintext
                             then Some (takeWhile (\<lambda>c. c \<noteq> 46)
                                          (tl (dropWhile (\<lambda>c. c \<noteq> 46) plaintext)))
                             else None);
                calculated = to_base64 (hmac_sha256 lib (utf8_bytes (SECRET_SIGNATURE_KEY cfg))
                                          (buffer_from_base64 encoded))
            in if encoded = [] then (Next_RouterError 400 ''InvalidParams'', calls_to_decrypt)
               else if signature \<noteq> Some calculated
                 then (Next_RouterError 400 ''Unauthorized'', calls_to_decrypt @ [Hmac_digest])
               else case atob encoded of
                      Inl e \<Rightarrow> (Next_RouterError 400 ''InvalidParams'',
                                 calls_to_decrypt @ [Hmac_digest, Atob])
                    | Inr decoded_text \<Rightarrow>
                        (case JSON_parse lib decoded_text of
                           None \<Rightarrow> (Next_RouterError 400 ''InvalidParams'',
                                     calls_to_decrypt @ [Hmac_digest, Atob, JSON_parse_call])
                         | Some v \<Rightarrow> (Send 200 v,
                                       calls_to_decrypt @ [Hmac_digest, Atob, JSON_parse_call])))"
    by (rule decode_explicit [OF t d])
qed

text \<open>The witness: the token of the payload \<^verbatim>\<open>{}\<close> under the IV of zeros, and the context
  that differs from it by 28 in the fourth byte. The altered block starts with
  \<^verbatim>\<open>e30!.\<close> and its signature is unchanged; the signatures agree, since
  \<^verbatim>\<open>Buffer.from\<close> skips the \<^verbatim>\<open>!\<close>, and \<^verbatim>\<open>atob\<close> throws on it.\<close>

theorem other_context_outcome_witness:
  "encode sample_platform sample_config [0, 0, 0, 0, 0, 0, 0, 0, 0, 0, 0, 0, 0, 0, 0, 0] (Jobj [])
     = Send 200 (sample_token [0, 0, 0, 0, 0, 0, 0, 0, 0, 0, 0, 0, 0, 0, 0, 0] [123, 125],
                 js ''00000000000000000000000000000000'') \<and>
   decode sample_platform sample_config
     \<lparr>body_token = JString (sample_token [0, 0, 0, 0, 0, 0, 0, 0, 0, 0, 0, 0, 0, 0, 0, 0] [123, 125]),
      body_context = JString (js ''0000001c000000000000000000000000'')\<rparr>
     = (Next_RouterError 400 ''InvalidParams'',
        [Buffer_from_base64, Buffer_from_hex, CreateDecipheriv, Decipher_final, Hmac_digest, Atob])"
proof -
  let ?ivA = "[0, 0, 0, 0, 0, 0, 0, 0, 0, 0, 0, 0, 0, 0, 0, 0] :: buffer"
  let ?ivB = "[0, 0, 0, 28, 0, 0, 0, 0, 0, 0, 0, 0, 0, 0, 0, 0] :: buffer"
  let ?sg = "to_base64 (hmac_sha256 sample_platform (utf8_bytes (SECRET_SIGNATURE_KEY sample_config)) [123, 125])"
  have s: "JSON_stringify sample_platform (Jobj []) = Some [123, 125]"
    by (simp add: sample_platform_def)
  have c: "\<forall>c \<in> set [123, 125 :: nat]. c \<le> 255" by simp
  have lA: "length ?ivA = 16" by simp
  have lB: "length ?ivB = 16" by simp
  have hA: "to_hex ?ivA = js ''00000000000000000000000000000000''"
    by (simp add: to_hex_def hex_digit_def js_def)
  have hB: "to_hex ?ivB = js ''0000001c000000000000000000000000''"
    by (simp add: to_hex_def hex_digit_def js_def)
  have asg: "\<forall>c \<in> set ?sg. c < 128 \<and> c \<noteq> 46" by (rule to_base64_ascii)
  have e: "\<forall>c \<in> set (js ''e30!''). c \<noteq> 46" by (simp add: js_def)
  have "\<forall>c \<in> set (js ''e30!'' @ 46 # ?sg). c < 128" using asg by (auto simp: js_def)
  then have u: "utf8_to_string (utf8_bytes (js ''e30!'' @ 46 # ?sg)) = js ''e30!'' @ 46 # ?sg"
    by (rule utf8_round_trip_ascii)
  have s': "\<forall>c \<in> set ?sg. c \<noteq> 46" using asg by simp
  have ne: "js ''e30!'' \<noteq> []" by (simp add: js_def)
  note T = other_context_outcome [OF sample_platform_ok lA lB s c]
  have "encode sample_platform sample_config ?ivA (Jobj [])
     = Send 200 (sample_token ?ivA [123, 125], js ''00000000000000000000000000000000'')"
    using T [THEN conjunct1] unfolding hA sample_token_def .
  moreover have "decode sample_platform sample_config
     \<lparr>body_token = JString (sample_token ?ivA [123, 125]),
      body_context = JString (js ''0000001c000000000000000000000000'')\<rparr>
     = (Next_RouterError 400 ''InvalidParams'',
        [Buffer_from_base64, Buffer_from_hex, CreateDecipheriv, Decipher_final, Hmac_digest, Atob])"
    using T [THEN conjunct2] unfolding hB sample_token_def altered_sample_block u
    by (simp add: Let_def parts_of_text [OF e s'] ne buffer_from_base64_e30_bang atob_e30_bang
        calls_to_decrypt_def)
  ultimately show ?thesis by (intro conjI)
qed

text \<open>The counterexample to the claim as first stated (decode of a token under the context
  of another call never succeeds): two calls of encode with the payload \<^verbatim>\<open>{}\<close>, whose
  IVs differ by 29 in the fourth byte; the first 16 bytes of the signed block,
  \<^verbatim>\<open>e30=.\<close> and the start of the signature, become \<^verbatim>\<open>e30 .\<close> and the same start, and
  both decoders of base64 read \<^verbatim>\<open>e30 \<close> as they read \<^verbatim>\<open>e30=\<close>.\<close>

theorem context_binding_counterexample:
  "encode sample_platform sample_config [0, 0, 0, 0, 0, 0, 0, 0, 0, 0, 0, 0, 0, 0, 0, 0] (Jobj [])
     = Send 200 (sample_token [0, 0, 0, 0, 0, 0, 0, 0, 0, 0, 0, 0, 0, 0, 0, 0] [123, 125], js ''00000000000000000000000000000000'') \<and>
   encode sample_platform sample_config [0, 0, 0, 29, 0, 0, 0, 0, 0, 0, 0, 0, 0, 0, 0, 0] (Jobj [])
     = Send 200 (sample_token [0, 0, 0, 29, 0, 0, 0, 0, 0, 0, 0, 0, 0, 0, 0, 0] [123, 125], js ''0000001d000000000000000000000000'') \<and>
   fst (decode sample_platform sample_config
          \<lparr>body_token = JString (sample_token [0, 0, 0, 0, 0, 0, 0, 0, 0, 0, 0, 0, 0, 0, 0, 0] [123, 125]),
           body_context = JString (js ''0000001d000000000000000000000000'')\<rparr>)
     = Send 200 (Jobj [])"
proof -
  have s: "JSON_stringify sample_platform (Jobj []) = Some [123, 125]"
    by (simp add: sample_platform_def)
  have p: "JSON_parse sample_platform [123, 125] = Some (Jobj [])"
    using sample_parse_empty_object by (simp add: sample_platform_def)
  have c: "\<forall>c \<in> set [123, 125 :: nat]. c \<le> 255" by simp
  have lA: "length ([0, 0, 0, 0, 0, 0, 0, 0, 0, 0, 0, 0, 0, 0, 0, 0] :: buffer) = 16" by simp
  have lB: "length ([0, 0, 0, 29, 0, 0, 0, 0, 0, 0, 0, 0, 0, 0, 0, 0] :: buffer) = 16" by simp
  have hA: "to_hex [0, 0, 0, 0, 0, 0, 0, 0, 0, 0, 0, 0, 0, 0, 0, 0] = js ''00000000000000000000000000000000''"
    by (simp add: to_hex_def hex_digit_def js_def)
  have hB: "to_hex [0, 0, 0, 29, 0, 0, 0, 0, 0, 0, 0, 0, 0, 0, 0, 0] = js ''0000001d000000000000000000000000''"
    by (simp add: to_hex_def hex_digit_def js_def)
  have x: "xor_block [0, 0, 0, 0, 0, 0, 0, 0, 0, 0, 0, 0, 0, 0, 0, 0] (replicate 3 0 @ [29] @ replicate 12 0) = [0, 0, 0, 29, 0, 0, 0, 0, 0, 0, 0, 0, 0, 0, 0, 0]"
    by (simp add: xor_block_def numeral_eq_Suc)
  have eA: "encode sample_platform sample_config [0, 0, 0, 0, 0, 0, 0, 0, 0, 0, 0, 0, 0, 0, 0, 0] (Jobj [])
     = Send 200 (sample_token [0, 0, 0, 0, 0, 0, 0, 0, 0, 0, 0, 0, 0, 0, 0, 0] [123, 125], js ''00000000000000000000000000000000'')"
    unfolding sample_token_def hA [symmetric]
    using s c lA sample_key_length by (rule encode_latin1)
  have eB: "encode sample_platform sample_config [0, 0, 0, 29, 0, 0, 0, 0, 0, 0, 0, 0, 0, 0, 0, 0] (Jobj [])
     = Send 200 (sample_token [0, 0, 0, 29, 0, 0, 0, 0, 0, 0, 0, 0, 0, 0, 0, 0] [123, 125], js ''0000001d000000000000000000000000'')"
    unfolding sample_token_def hB [symmetric]
    using s c lB sample_key_length by (rule encode_latin1)
  have d: "fst (decode sample_platform sample_config
          \<lparr>body_token = JString (sample_token [0, 0, 0, 0, 0, 0, 0, 0, 0, 0, 0, 0, 0, 0, 0, 0] [123, 125]),
           body_context = JString (js ''0000001d000000000000000000000000'')\<rparr>)
     = Send 200 (Jobj [])"
    using other_context_accepted(2) [OF sample_platform_ok lA s p]
    unfolding x hB sample_token_def .
  from eA eB d show ?thesis by (intro conjI)
qed

subsection \<open>C4: what the signature is computed over\<close>

text \<open>
  Claim C4. In encode the HMAC is computed over the bytes obtained by
  base64-decoding the string \<open>encoded\<close>, which are the bytes of the serialized payload
  and differ from the bytes of the base64 text; and decode recomputes the HMAC over the
  decoded bytes of its \<open>encoded\<close> in the same way, under the same signature key: with a
  non-empty \<open>encoded\<close>, it answers Unauthorized exactly when the signature of the
  plaintext is not the base64 text of that HMAC.
\<close>

theorem signature_over_decoded_bytes:
  "(JSON_stringify lib body = Some text \<and> (\<forall>c \<in> set text. c \<le> 255) \<and> length iv = 16 \<and>
    length (utf8_bytes (SECRET_ENCRYPTION_KEY cfg)) = 32
    \<longrightarrow> buffer_from_base64 (base64_encode text) = map of_nat text \<and>
        encode lib cfg iv body =
          Send 200
            (to_base64 (cipher_update_final lib (utf8_bytes (SECRET_ENCRYPTION_KEY cfg)) iv
               (utf8_bytes (base64_encode text @ js ''.'' @
                  to_base64 (hmac_sha256 lib (utf8_bytes (SECRET_SIGNATURE_KEY cfg)) (map of_nat text))))),
             to_hex iv)) \<and>
   (text \<noteq> [] \<and> (\<forall>c \<in> set text. c \<le> 255)
    \<longrightarrow> utf8_bytes (base64_encode text) \<noteq> map of_nat text) \<and>
   (truthy (body_token request) \<and> truthy (body_context request) \<and>
    decrypt_token lib cfg (body_token request) (body_context request) = (Inr decrypted, l) \<and>
    index (split (utf8_to_string decrypted) 46) 0 = Some encoded \<and> encoded \<noteq> []
    \<longrightarrow> (fst (decode lib cfg request) = Next_RouterError 400 ''Unauthorized'')
          = (index (split (utf8_to_string decrypted) 46) 1 \<noteq>
               Some (to_base64 (hmac_sha256 lib (utf8_bytes (SECRET_SIGNATURE_KEY cfg))
                       (buffer_from_base64 encoded)))))"
proof (intro conjI impI)
  assume a: "JSON_stringify lib body = Some text \<and> (\<forall>c \<in> set text. c \<le> 255) \<and> length iv = 16 \<and>
    length (utf8_bytes (SECRET_ENCRYPTION_KEY cfg)) = 32"
  then have lt: "\<forall>x \<in> set text. x < 256" by auto
  then show b: "buffer_from_base64 (base64_encode text) = map of_nat text"
    by (rule buffer_from_base64_encode)
  show "encode lib cfg iv body =
          Send 200
            (to_base64 (cipher_update_final lib (utf8_bytes (SECRET_ENCRYPTION_KEY cfg)) iv
               (utf8_bytes (base64_encode text @ js ''.'' @
                  to_base64 (hmac_sha256 lib (utf8_bytes (SECRET_SIGNATURE_KEY cfg)) (map of_nat text))))),
             to_hex iv)"
    using a encode_latin1 [of lib body "text" iv cfg] by (simp add: signed_block_def b)
next
  assume "text \<noteq> [] \<and> (\<forall>c \<in> set text. c \<le> 255)"
  then show "utf8_bytes (base64_encode text) \<noteq> map of_nat text"
    using utf8_bytes_base64_differs [of "text"] by simp
next
  assume a: "truthy (body_token request) \<and> truthy (body_context request) \<and>
    decrypt_token lib cfg (body_token request) (body_context request) = (Inr decrypted, l) \<and>
    index (split (utf8_to_string decrypted) 46) 0 = Some encoded \<and> encoded \<noteq> []"
  let ?calc = "to_base64 (hmac_sha256 lib (utf8_bytes (SECRET_SIGNATURE_KEY cfg)) (buffer_from_base64 encoded))"
  have d: "decode lib cfg request =
     (case verify_and_parse lib cfg decrypted of
        (Inl e, l') \<Rightarrow> (Next_RouterError 400 ''InvalidParams'', l @ l')
      | (Inr outcome, l') \<Rightarrow> (outcome, l @ l'))"
    using a by (intro decode_after_decrypt) simp_all
  show "(fst (decode lib cfg request) = Next_RouterError 400 ''Unauthorized'')
          = (index (split (utf8_to_string decrypted) 46) 1 \<noteq> Some ?calc)"
  proof (cases "index (split (utf8_to_string decrypted) 46) 1 = Some ?calc")
    case False
    then have "verify_and_parse lib cfg decrypted = (Inr (Next_RouterError 400 ''Unauthorized''), [Hmac_digest])"
      using a by (intro verify_and_parse_mismatch [where enc = encoded]) simp_all
    with False show ?thesis by (simp add: d)
  next
    case True
    then have "fst (verify_and_parse lib cfg decrypted) \<noteq> Inr (Next_RouterError 400 ''Unauthorized'')"
      using a
      by (auto simp: verify_and_parse_def Let_def and_then_pair did_def return_logged_def
          split: sum.splits option.splits)
    with True show ?thesis
      by (cases "verify_and_parse lib cfg decrypted") (auto simp: d split: sum.splits)
  qed
qed

text \<open>The witness: encode of \<^verbatim>\<open>{"name":"Ada"}\<close>, and decode of a token that decrypts to
  the signed block of that text.\<close>

theorem signature_over_decoded_bytes_witness:
  "buffer_from_base64 (base64_encode [123, 34, 110, 97, 109, 101, 34, 58, 34, 65, 100, 97, 34, 125])
     = [123, 34, 110, 97, 109, 101, 34, 58, 34, 65, 100, 97, 34, 125] \<and>
   encode sample_platform sample_config (replicate 16 0) (Jobj [(js ''name'', Jstr (js ''Ada''))])
     = Send 200
         (to_base64 (cipher_update_final sample_platform (utf8_bytes (SECRET_ENCRYPTION_KEY sample_config))
            (replicate 16 0)
            (utf8_bytes (base64_encode [123, 34, 110, 97, 109, 101, 34, 58, 34, 65, 100, 97, 34, 125] @ js ''.'' @
               to_base64 (hmac_sha256 sample_platform (utf8_bytes (SECRET_SIGNATURE_KEY sample_config))
                            [123, 34, 110, 97, 109, 101, 34, 58, 34, 65, 100, 97, 34, 125])))),
          to_hex (replicate 16 0)) \<and>
   utf8_bytes (base64_encode [123, 34, 110, 97, 109, 101, 34, 58, 34, 65, 100, 97, 34, 125])
     \<noteq> [123, 34, 110, 97, 109, 101, 34, 58, 34, 65, 100, 97, 34, 125] \<and>
   fst (decode sample_platform sample_config
          \<lparr>body_token = JString (sample_token (replicate 16 0) [123, 125]),
           body_context = JString (to_hex (replicate 16 0))\<rparr>)
     \<noteq> Next_RouterError 400 ''Unauthorized''"
proof -
  let ?text = "[123, 34, 110, 97, 109, 101, 34, 58, 34, 65, 100, 97, 34, 125] :: nat list"
  let ?body = "Jobj [(js ''name'', Jstr (js ''Ada''))]"
  let ?req = "\<lparr>body_token = JString (sample_token (replicate 16 0) [123, 125]),
               body_context = JString (to_hex (replicate 16 (0 :: byte)))\<rparr>"
  let ?sg = "to_base64 (hmac_sha256 sample_platform (utf8_bytes (SECRET_SIGNATURE_KEY sample_config)) [123, 125])"
  have s: "JSON_stringify sample_platform ?body = Some ?text"
    using stringify_name_Ada by (simp add: sample_platform_def)
  have c: "\<forall>c \<in> set ?text. c \<le> 255" by simp
  have m: "map of_nat ?text = ([123, 34, 110, 97, 109, 101, 34, 58, 34, 65, 100, 97, 34, 125] :: buffer)"
    by simp
  have t: "truthy (body_token ?req)" "truthy (body_context ?req)"
    using truthy_token [OF sample_platform_ok, of "replicate 16 0"] by (simp_all add: sample_token_def)
  have d: "decrypt_token sample_platform sample_config (body_token ?req) (body_context ?req)
             = (Inr (utf8_bytes (signed_block sample_platform sample_config [123, 125])), calls_to_decrypt)"
    using sample_platform_ok decrypt_token_cipher [of sample_platform sample_config "replicate 16 0"]
    by (simp add: platform_ok_def sample_token_def)
  have asg: "\<forall>c \<in> set ?sg. c < 128 \<and> c \<noteq> 46" by (rule to_base64_ascii)
  then have "\<forall>c \<in> set ([101, 51, 48, 61] @ [46] @ ?sg). c < 128" by auto
  then have u: "utf8_to_string (utf8_bytes (signed_block sample_platform sample_config [123, 125]))
      = [101, 51, 48, 61] @ [46] @ ?sg"
    unfolding signed_block_braces by (rule utf8_round_trip_ascii)
  have i0: "index (split (utf8_to_string (utf8_bytes (signed_block sample_platform sample_config [123, 125]))) 46) 0
      = Some [101, 51, 48, 61]"
    unfolding u using asg by (intro split_signed(1)) simp_all
  have i1: "index (split (utf8_to_string (utf8_bytes (signed_block sample_platform sample_config [123, 125]))) 46) 1
      = Some ?sg"
    unfolding u using asg by (intro split_signed(2)) simp_all
  have b: "buffer_from_base64 [101, 51, 48, 61] = [123, 125]"
    using buffer_from_base64_encode [of "[123, 125]"] by (simp add: base64_char_def)
  have ne: "[101, 51, 48, 61] \<noteq> ([] :: nat list)" by simp
  show ?thesis
    using signature_over_decoded_bytes [of sample_platform ?body ?text "replicate 16 0" sample_config
        ?req "utf8_bytes (signed_block sample_platform sample_config [123, 125])" calls_to_decrypt
        "[101, 51, 48, 61]"]
      s c sample_key_length t d i0 i1 b ne
    by (simp add: m del: base64_encode.simps utf8_bytes.simps)
qed

subsection \<open>C5: missing parameters come first\<close>

text \<open>
  Claim C5. For every decode request in which the token field or the context field is
  absent or empty, decode fails with MissingParams (HTTP 400) before performing any
  cryptographic work: the log of calls is empty, so no decoding, decryption or HMAC
  computation has occurred, whatever the other field holds.
\<close>

theorem missing_params_precedence:
  "body_token body \<in> {JUndefined, JString []} \<or> body_context body \<in> {JUndefined, JString []} \<Longrightarrow>
   decode lib cfg body = (Next_RouterError 400 ''MissingParams'', [])"
  by (rule decode_falsy) auto

theorem missing_params_precedence_witness:
  "decode sample_platform sample_config \<lparr>body_token = JUndefined, body_context = JUndefined\<rparr>
     = (Next_RouterError 400 ''MissingParams'', []) \<and>
   decode sample_platform sample_config \<lparr>body_token = JString (js ''x''), body_context = JUndefined\<rparr>
     = (Next_RouterError 400 ''MissingParams'', []) \<and>
   decode sample_platform sample_config \<lparr>body_token = JString [], body_context = JString (js ''y'')\<rparr>
     = (Next_RouterError 400 ''MissingParams'', [])"
  using missing_params_precedence [of "\<lparr>body_token = JUndefined, body_context = JUndefined\<rparr>" sample_platform sample_config]
    missing_params_precedence [of "\<lparr>body_token = JString (js ''x''), body_context = JUndefined\<rparr>" sample_platform sample_config]
    missing_params_precedence [of "\<lparr>body_token = JString [], body_context = JString (js ''y'')\<rparr>" sample_platform sample_config]
  by simp

subsection \<open>C6: every failure of the try block is InvalidParams\<close>

text \<open>
  Claim C6. For every decode input with both fields present, each failure of the
  \<^verbatim>\<open>try\<close> block gives the one error InvalidParams with status 400, after the calls made
  so far: a token or a context that \<^verbatim>\<open>Buffer.from\<close> rejects; an IV that has not 16 bytes,
  or a key that has not 32; a ciphertext that is empty or not a whole number of blocks; a
  decrypted last block whose padding is bad (its last byte \<open>n\<close> is 0 or above 16, or its
  last \<open>n\<close> bytes are not all \<open>n\<close>); an \<open>encoded\<close> part with the right signature that
  \<^verbatim>\<open>atob\<close> rejects; and a text that \<^verbatim>\<open>JSON.parse\<close> rejects. For no input does an exception
  leave the decode handler.
\<close>

theorem decode_failures_are_invalid_params:
  assumes "truthy (body_token request)" and "truthy (body_context request)"
  shows
  "(buffer_from (body_token request) Base64 = Inl e1 \<longrightarrow>
      decode lib cfg request = (Next_RouterError 400 ''InvalidParams'', [Buffer_from_base64])) \<and>
   (buffer_from (body_token request) Base64 = Inr ct \<and>
    buffer_from (body_context request) Hex = Inl e2 \<longrightarrow>
      decode lib cfg request =
        (Next_RouterError 400 ''InvalidParams'', [Buffer_from_base64, Buffer_from_hex])) \<and>
   (buffer_from (body_token request) Base64 = Inr ct \<and>
    buffer_from (body_context request) Hex = Inr iv \<and> length iv \<noteq> 16 \<longrightarrow>
      decode lib cfg request =
        (Next_RouterError 400 ''InvalidParams'',
         [Buffer_from_base64, Buffer_from_hex, CreateDecipheriv])) \<and>
   (buffer_from (body_token request) Base64 = Inr ct \<and>
    buffer_from (body_context request) Hex = Inr iv \<and> length iv = 16 \<and>
    length (utf8_bytes (SECRET_ENCRYPTION_KEY cfg)) \<noteq> 32 \<longrightarrow>
      decode lib cfg request =
        (Next_RouterError 400 ''InvalidParams'',
         [Buffer_from_base64, Buffer_from_hex, CreateDecipheriv])) \<and>
   (buffer_from (body_token request) Base64 = Inr ct \<and>
    buffer_from (body_context request) Hex = Inr iv \<and> length iv = 16 \<and>
    length (utf8_bytes (SECRET_ENCRYPTION_KEY cfg)) = 32 \<and>
    (ct = [] \<or> length ct mod 16 \<noteq> 0) \<longrightarrow>
      decode lib cfg request =
        (Next_RouterError 400 ''InvalidParams'',
         [Buffer_from_base64, Buffer_from_hex, CreateDecipheriv, Decipher_final])) \<and>
   (buffer_from (body_token request) Base64 = Inr ct \<and>
    buffer_from (body_context request) Hex = Inr iv \<and> length iv = 16 \<and>
    length (utf8_bytes (SECRET_ENCRYPTION_KEY cfg)) = 32 \<and>
    ct \<noteq> [] \<and> length ct mod 16 = 0 \<and>
    P = cbc_decrypt (aes256_decrypt_block lib (utf8_bytes (SECRET_ENCRYPTION_KEY cfg))) iv (blocks ct) \<and>
    (unat (last P) = 0 \<or> 16 < unat (last P) \<or>
     drop (length P - unat (last P)) P \<noteq> replicate (unat (last P)) (last P)) \<longrightarrow>
      decode lib cfg request =
        (Next_RouterError 400 ''InvalidParams'',
         [Buffer_from_base64, Buffer_from_hex, CreateDecipheriv, Decipher_final])) \<and>
   (decrypt_token lib cfg (body_token request) (body_context request) = (Inr decrypted, l) \<and>
    index (split (utf8_to_string decrypted) 46) 0 = Some encoded \<and> encoded \<noteq> [] \<and>
    index (split (utf8_to_string decrypted) 46) 1 =
      Some (to_base64 (hmac_sha256 lib (utf8_bytes (SECRET_SIGNATURE_KEY cfg))
              (buffer_from_base64 encoded))) \<and>
    atob encoded = Inl e3 \<longrightarrow>
      decode lib cfg request =
        (Next_RouterError 400 ''InvalidParams'',
         [Buffer_from_base64, Buffer_from_hex, CreateDecipheriv, Decipher_final,
          Hmac_digest, Atob])) \<and>
   (decrypt_token lib cfg (body_token request) (body_context request) = (Inr decrypted, l) \<and>
    index (split (utf8_to_string decrypted) 46) 0 = Some encoded \<and> encoded \<noteq> [] \<and>
    index (split (utf8_to_string decrypted) 46) 1 =
      Some (to_base64 (hmac_sha256 lib (utf8_bytes (SECRET_SIGNATURE_KEY cfg))
              (buffer_from_base64 encoded))) \<and>
    atob encoded = Inr text \<and> JSON_parse lib text = None \<longrightarrow>
      decode lib cfg request =
        (Next_RouterError 400 ''InvalidParams'',
         [Buffer_from_base64, Buffer_from_hex, CreateDecipheriv, Decipher_final,
          Hmac_digest, Atob, JSON_parse_call])) \<and>
   fst (decode lib cfg request) \<noteq> Throws e4"
proof (intro conjI impI)
  let ?key = "utf8_bytes (SECRET_ENCRYPTION_KEY cfg)"
  let ?tok = "body_token request"
  let ?ctx = "body_context request"
  note fail = decode_decrypt_failure [OF assms]
  {
    assume "buffer_from ?tok Base64 = Inl e1"
    then have "decrypt_token lib cfg ?tok ?ctx = (Inl e1, [Buffer_from_base64])"
      by (simp add: decrypt_token_explicit)
    then show "decode lib cfg request = (Next_RouterError 400 ''InvalidParams'', [Buffer_from_base64])"
      by (rule fail)
  next
    assume "buffer_from ?tok Base64 = Inr ct \<and> buffer_from ?ctx Hex = Inl e2"
    then have "decrypt_token lib cfg ?tok ?ctx = (Inl e2, [Buffer_from_base64, Buffer_from_hex])"
      by (simp add: decrypt_token_explicit)
    then show "decode lib cfg request =
        (Next_RouterError 400 ''InvalidParams'', [Buffer_from_base64, Buffer_from_hex])"
      by (rule fail)
  next
    assume "buffer_from ?tok Base64 = Inr ct \<and> buffer_from ?ctx Hex = Inr iv \<and> length iv \<noteq> 16"
    then have "decrypt_token lib cfg ?tok ?ctx =
        (Inl ERR_CRYPTO_INVALID_IV, [Buffer_from_base64, Buffer_from_hex, CreateDecipheriv])"
      by (simp add: decrypt_token_explicit createCipheriv_def)
    then show "decode lib cfg request =
        (Next_RouterError 400 ''InvalidParams'', [Buffer_from_base64, Buffer_from_hex, CreateDecipheriv])"
      by (rule fail)
  next
    assume "buffer_from ?tok Base64 = Inr ct \<and> buffer_from ?ctx Hex = Inr iv \<and> length iv = 16 \<and>
      length ?key \<noteq> 32"
    then have "decrypt_token lib cfg ?tok ?ctx =
        (Inl ERR_CRYPTO_INVALID_KEYLEN, [Buffer_from_base64, Buffer_from_hex, CreateDecipheriv])"
      by (simp add: decrypt_token_explicit createCipheriv_def)
    then show "decode lib cfg request =
        (Next_RouterError 400 ''InvalidParams'', [Buffer_from_base64, Buffer_from_hex, CreateDecipheriv])"
      by (rule fail)
  next
    assume "buffer_from ?tok Base64 = Inr ct \<and> buffer_from ?ctx Hex = Inr iv \<and> length iv = 16 \<and>
      length ?key = 32 \<and> (ct = [] \<or> length ct mod 16 \<noteq> 0)"
    then have "decrypt_token lib cfg ?tok ?ctx =
        (Inl ERR_OSSL_WRONG_FINAL_BLOCK_LENGTH, calls_to_decrypt)"
      by (auto simp: decrypt_token_explicit createCipheriv_def decipher_update_final_def)
    then show "decode lib cfg request =
        (Next_RouterError 400 ''InvalidParams'',
         [Buffer_from_base64, Buffer_from_hex, CreateDecipheriv, Decipher_final])"
      unfolding calls_to_decrypt_def by (rule fail)
  next
    assume a: "buffer_from ?tok Base64 = Inr ct \<and> buffer_from ?ctx Hex = Inr iv \<and> length iv = 16 \<and>
      length ?key = 32 \<and> ct \<noteq> [] \<and> length ct mod 16 = 0 \<and>
      P = cbc_decrypt (aes256_decrypt_block lib ?key) iv (blocks ct) \<and>
      (unat (last P) = 0 \<or> 16 < unat (last P) \<or>
       drop (length P - unat (last P)) P \<noteq> replicate (unat (last P)) (last P))"
    then have "pkcs7_unpad P = Inl ERR_OSSL_BAD_DECRYPT"
      using pkcs7_unpad_bad [of P] by blast
    with a have "decrypt_token lib cfg ?tok ?ctx = (Inl ERR_OSSL_BAD_DECRYPT, calls_to_decrypt)"
      by (simp add: decrypt_token_explicit createCipheriv_def decipher_update_final_def)
    then show "decode lib cfg request =
        (Next_RouterError 400 ''InvalidParams'',
         [Buffer_from_base64, Buffer_from_hex, CreateDecipheriv, Decipher_final])"
      unfolding calls_to_decrypt_def by (rule fail)
  next
    assume a: "decrypt_token lib cfg ?tok ?ctx = (Inr decrypted, l) \<and>
      index (split (utf8_to_string decrypted) 46) 0 = Some encoded \<and> encoded \<noteq> [] \<and>
      index (split (utf8_to_string decrypted) 46) 1 =
        Some (to_base64 (hmac_sha256 lib (utf8_bytes (SECRET_SIGNATURE_KEY cfg))
                (buffer_from_base64 encoded))) \<and>
      atob encoded = Inl e3"
    then have l: "l = [Buffer_from_base64, Buffer_from_hex, CreateDecipheriv, Decipher_final]"
      by (intro decrypt_token_Inr(1) [of lib cfg ?tok ?ctx decrypted l]) simp
    have "verify_and_parse lib cfg decrypted = (Inl e3, [Hmac_digest, Atob])"
      using a by (simp add: verify_and_parse_def Let_def and_then_pair did_def return_logged_def)
    with a l show "decode lib cfg request =
        (Next_RouterError 400 ''InvalidParams'',
         [Buffer_from_base64, Buffer_from_hex, CreateDecipheriv, Decipher_final, Hmac_digest, Atob])"
      by (simp add: decode_after_decrypt [OF assms, of lib cfg decrypted l])
  next
    assume a: "decrypt_token lib cfg ?tok ?ctx = (Inr decrypted, l) \<and>
      index (split (utf8_to_string decrypted) 46) 0 = Some encoded \<and> encoded \<noteq> [] \<and>
      index (split (utf8_to_string decrypted) 46) 1 =
        Some (to_base64 (hmac_sha256 lib (utf8_bytes (SECRET_SIGNATURE_KEY cfg))
                (buffer_from_base64 encoded))) \<and>
      atob encoded = Inr text \<and> JSON_parse lib text = None"
    then have l: "l = [Buffer_from_base64, Buffer_from_hex, CreateDecipheriv, Decipher_final]"
      by (intro decrypt_token_Inr(1) [of lib cfg ?tok ?ctx decrypted l]) simp
    have "verify_and_parse lib cfg decrypted = (Inl SyntaxError, [Hmac_digest, Atob, JSON_parse_call])"
      using a by (simp add: verify_and_parse_def Let_def and_then_pair did_def return_logged_def)
    with a l show "decode lib cfg request =
        (Next_RouterError 400 ''InvalidParams'',
         [Buffer_from_base64, Buffer_from_hex, CreateDecipheriv, Decipher_final,
          Hmac_digest, Atob, JSON_parse_call])"
      by (simp add: decode_after_decrypt [OF assms, of lib cfg decrypted l])
  next
    show "fst (decode lib cfg request) \<noteq> Throws e4"
      by (rule decode_never_throws)
  }
qed

text \<open>The witness, one request for each failure: a token that is a number; a context that
  is a boolean; the context \<^verbatim>\<open>potato\<close>, which holds no hexadecimal digit; a configuration
  whose key has 5 bytes; a token of 3 bytes; a token of one block that decrypts to
  the block \<^verbatim>\<open>0123456789abcdef\<close>, which ends with no padding; the token of the block
  \<^verbatim>\<open>e30!.\<close> and the digest of \<^verbatim>\<open>{}\<close>; and the token of the signed block of the text
  \<^verbatim>\<open>{\<close>.\<close>

theorem decode_failures_are_invalid_params_witness:
  "decode sample_platform sample_config \<lparr>body_token = JNumber 5, body_context = JString (js ''00'')\<rparr>
     = (Next_RouterError 400 ''InvalidParams'', [Buffer_from_base64]) \<and>
   decode sample_platform sample_config \<lparr>body_token = JString (js ''asdf''), body_context = JBoolean True\<rparr>
     = (Next_RouterError 400 ''InvalidParams'', [Buffer_from_base64, Buffer_from_hex]) \<and>
   decode sample_platform sample_config
       \<lparr>body_token = JString (js ''asdf''), body_context = JString (js ''potato'')\<rparr>
     = (Next_RouterError 400 ''InvalidParams'', [Buffer_from_base64, Buffer_from_hex, CreateDecipheriv]) \<and>
   decode sample_platform (sample_config\<lparr>SECRET_ENCRYPTION_KEY := js ''short''\<rparr>)
       \<lparr>body_token = JString (js ''asdf''), body_context = JString (to_hex (replicate 16 0))\<rparr>
     = (Next_RouterError 400 ''InvalidParams'', [Buffer_from_base64, Buffer_from_hex, CreateDecipheriv]) \<and>
   decode sample_platform sample_config
       \<lparr>body_token = JString (to_base64 [1, 2, 3]), body_context = JString (to_hex (replicate 16 0))\<rparr>
     = (Next_RouterError 400 ''InvalidParams'',
        [Buffer_from_base64, Buffer_from_hex, CreateDecipheriv, Decipher_final]) \<and>
   decode sample_platform sample_config
       \<lparr>body_token = JString (to_base64 (replicate 16 0)),
        body_context = JString (to_hex (replicate 16 0))\<rparr>
     = (Next_RouterError 400 ''InvalidParams'',
        [Buffer_from_base64, Buffer_from_hex, CreateDecipheriv, Decipher_final]) \<and>
   decode sample_platform sample_config
       \<lparr>body_token = JString (to_base64 (cipher_update_final sample_platform
            (utf8_bytes (SECRET_ENCRYPTION_KEY sample_config)) (replicate 16 0)
            (utf8_bytes (js ''e30!'' @ [46] @
               to_base64 (hmac_sha256 sample_platform
                            (utf8_bytes (SECRET_SIGNATURE_KEY sample_config)) [123, 125]))))),
        body_context = JString (to_hex (replicate 16 0))\<rparr>
     = (Next_RouterError 400 ''InvalidParams'',
        [Buffer_from_base64, Buffer_from_hex, CreateDecipheriv, Decipher_final, Hmac_digest, Atob]) \<and>
   decode sample_platform sample_config
       \<lparr>body_token = JString (to_base64 (cipher_update_final sample_platform
            (utf8_bytes (SECRET_ENCRYPTION_KEY sample_config)) (replicate 16 0)
            (utf8_bytes (signed_block sample_platform sample_config [123])))),
        body_context = JString (to_hex (replicate 16 0))\<rparr>
     = (Next_RouterError 400 ''InvalidParams'',
        [Buffer_from_base64, Buffer_from_hex, CreateDecipheriv, Decipher_final, Hmac_digest, Atob,
         JSON_parse_call]) \<and>
   fst (decode sample_platform sample_config
          \<lparr>body_token = JString (js ''asdf''), body_context = JString (js ''potato'')\<rparr>)
     \<noteq> Throws ERR_CRYPTO_INVALID_IV"
proof -
  let ?key = "utf8_bytes (SECRET_ENCRYPTION_KEY sample_config)"
  let ?zero = "replicate 16 (0 :: byte)"
  let ?ctx = "JString (to_hex ?zero)"
  let ?cfg' = "sample_config\<lparr>SECRET_ENCRYPTION_KEY := js ''short''\<rparr>"
  let ?sg = "to_base64 (hmac_sha256 sample_platform (utf8_bytes (SECRET_SIGNATURE_KEY sample_config)) [123, 125])"
  let ?pt7 = "utf8_bytes (js ''e30!'' @ [46] @ ?sg)"
  let ?pt8 = "utf8_bytes (signed_block sample_platform sample_config [123])"
  let ?r1 = "\<lparr>body_token = JNumber 5, body_context = JString (js ''00'')\<rparr>"
  let ?r2 = "\<lparr>body_token = JString (js ''asdf''), body_context = JBoolean True\<rparr>"
  let ?r3 = "\<lparr>body_token = JString (js ''asdf''), body_context = JString (js ''potato'')\<rparr>"
  let ?r4 = "\<lparr>body_token = JString (js ''asdf''), body_context = ?ctx\<rparr>"
  let ?r5 = "\<lparr>body_token = JString (to_base64 [1, 2, 3]), body_context = ?ctx\<rparr>"
  let ?r6 = "\<lparr>body_token = JString (to_base64 ?zero), body_context = ?ctx\<rparr>"
  let ?r7 = "\<lparr>body_token = JString (to_base64 (cipher_update_final sample_platform ?key ?zero ?pt7)),
              body_context = ?ctx\<rparr>"
  let ?r8 = "\<lparr>body_token = JString (to_base64 (cipher_update_final sample_platform ?key ?zero ?pt8)),
              body_context = ?ctx\<rparr>"
  have tc: "truthy ?ctx"
    using truthy_token(2) [OF sample_platform_ok, of ?zero] by simp
  have hx: "buffer_from ?ctx Hex = Inr ?zero"
    by (simp add: buffer_from_hex_to_hex)
  have ta: "truthy (JString (js ''asdf''))" by (simp add: js_def)

  have t1: "truthy (body_token ?r1)" "truthy (body_context ?r1)" by (simp_all add: js_def)
  have h1: "buffer_from (body_token ?r1) Base64 = Inl TypeError" by simp
  note w1 = decode_failures_are_invalid_params [OF t1, THEN conjunct1, THEN mp, OF h1]

  have t2: "truthy (body_token ?r2)" "truthy (body_context ?r2)" using ta by simp_all
  have h2: "buffer_from (body_token ?r2) Base64 = Inr (buffer_from_base64 (js ''asdf'')) \<and>
            buffer_from (body_context ?r2) Hex = Inl TypeError" by simp
  note w2 = decode_failures_are_invalid_params
              [OF t2, THEN conjunct2, THEN conjunct1, THEN mp, OF h2]

  have t3: "truthy (body_token ?r3)" "truthy (body_context ?r3)" by (simp_all add: js_def)
  have h3: "buffer_from (body_token ?r3) Base64 = Inr (buffer_from_base64 (js ''asdf'')) \<and>
            buffer_from (body_context ?r3) Hex = Inr [] \<and> length ([] :: buffer) \<noteq> 16"
    by (simp add: buffer_from_hex_potato)
  note w3 = decode_failures_are_invalid_params
              [OF t3, THEN conjunct2, THEN conjunct2, THEN conjunct1, THEN mp, OF h3]

  have t4: "truthy (body_token ?r4)" "truthy (body_context ?r4)" using ta tc by simp_all
  have h4: "buffer_from (body_token ?r4) Base64 = Inr (buffer_from_base64 (js ''asdf'')) \<and>
            buffer_from (body_context ?r4) Hex = Inr ?zero \<and> length ?zero = 16 \<and>
            length (utf8_bytes (SECRET_ENCRYPTION_KEY ?cfg')) \<noteq> 32"
    using hx short_key_length by simp
  note w4 = decode_failures_are_invalid_params
              [OF t4, THEN conjunct2, THEN conjunct2, THEN conjunct2, THEN conjunct1, THEN mp, OF h4]

  have t5: "truthy (body_token ?r5)" "truthy (body_context ?r5)"
    using tc to_base64_not_Nil [of "[1, 2, 3]"] by simp_all
  have h5: "buffer_from (body_token ?r5) Base64 = Inr [1, 2, 3] \<and>
            buffer_from (body_context ?r5) Hex = Inr ?zero \<and> length ?zero = 16 \<and>
            length ?key = 32 \<and>
            (([1, 2, 3] :: buffer) = [] \<or> length ([1, 2, 3] :: buffer) mod 16 \<noteq> 0)"
    using hx sample_key_length by (simp add: buffer_from_base64_to_base64)
  note w5 = decode_failures_are_invalid_params
              [OF t5, THEN conjunct2, THEN conjunct2, THEN conjunct2, THEN conjunct2,
               THEN conjunct1, THEN mp, OF h5]

  have t6: "truthy (body_token ?r6)" "truthy (body_context ?r6)"
    using tc to_base64_not_Nil [of ?zero] by simp_all
  have h6: "buffer_from (body_token ?r6) Base64 = Inr ?zero \<and>
            buffer_from (body_context ?r6) Hex = Inr ?zero \<and> length ?zero = 16 \<and>
            length ?key = 32 \<and> ?zero \<noteq> [] \<and> length ?zero mod 16 = 0 \<and>
            [48, 49, 50, 51, 52, 53, 54, 55, 56, 57, 97, 98, 99, 100, 101, 102]
              = cbc_decrypt (aes256_decrypt_block sample_platform ?key) ?zero (blocks ?zero) \<and>
            (unat (last [48, 49, 50, 51, 52, 53, 54, 55, 56, 57, 97, 98, 99, 100, 101, 102 :: byte]) = 0 \<or>
             16 < unat (last [48, 49, 50, 51, 52, 53, 54, 55, 56, 57, 97, 98, 99, 100, 101, 102 :: byte]) \<or>
             drop (length [48, 49, 50, 51, 52, 53, 54, 55, 56, 57, 97, 98, 99, 100, 101, 102 :: byte]
                   - unat (last [48, 49, 50, 51, 52, 53, 54, 55, 56, 57, 97, 98, 99, 100, 101, 102 :: byte]))
               [48, 49, 50, 51, 52, 53, 54, 55, 56, 57, 97, 98, 99, 100, 101, 102 :: byte]
             \<noteq> replicate (unat (last [48, 49, 50, 51, 52, 53, 54, 55, 56, 57, 97, 98, 99, 100, 101, 102 :: byte]))
                  (last [48, 49, 50, 51, 52, 53, 54, 55, 56, 57, 97, 98, 99, 100, 101, 102 :: byte]))"
    using hx sample_key_length
    by (simp add: buffer_from_base64_to_base64 sample_decrypt_zero_block)
  note w6 = decode_failures_are_invalid_params
              [OF t6, THEN conjunct2, THEN conjunct2, THEN conjunct2, THEN conjunct2,
               THEN conjunct2, THEN conjunct1, THEN mp, OF h6]

  have asg: "\<forall>c \<in> set ?sg. c < 128 \<and> c \<noteq> 46" by (rule to_base64_ascii)
  have t7: "truthy (body_token ?r7)" "truthy (body_context ?r7)"
    using truthy_token [OF sample_platform_ok, of ?zero] by simp_all
  have d7: "decrypt_token sample_platform sample_config (body_token ?r7) (body_context ?r7)
              = (Inr ?pt7, calls_to_decrypt)"
    using sample_platform_ok decrypt_token_cipher [of sample_platform sample_config ?zero]
    by (simp add: platform_ok_def)
  have e7: "\<forall>c \<in> set (js ''e30!''). c < 128 \<and> c \<noteq> 46" by (simp add: js_def)
  have "\<forall>c \<in> set (js ''e30!'' @ [46] @ ?sg). c < 128" using asg e7 by auto
  then have u7: "utf8_to_string ?pt7 = js ''e30!'' @ [46] @ ?sg"
    by (rule utf8_round_trip_ascii)
  have h7: "decrypt_token sample_platform sample_config (body_token ?r7) (body_context ?r7)
              = (Inr ?pt7, calls_to_decrypt) \<and>
            index (split (utf8_to_string ?pt7) 46) 0 = Some (js ''e30!'') \<and> js ''e30!'' \<noteq> [] \<and>
            index (split (utf8_to_string ?pt7) 46) 1 =
              Some (to_base64 (hmac_sha256 sample_platform (utf8_bytes (SECRET_SIGNATURE_KEY sample_config))
                      (buffer_from_base64 (js ''e30!'')))) \<and>
            atob (js ''e30!'') = Inl InvalidCharacterError"
  proof (intro conjI)
    show "decrypt_token sample_platform sample_config (body_token ?r7) (body_context ?r7)
              = (Inr ?pt7, calls_to_decrypt)" by (rule d7)
    show "index (split (utf8_to_string ?pt7) 46) 0 = Some (js ''e30!'')"
      unfolding u7 using e7 asg by (intro split_signed(1)) simp_all
    show "js ''e30!'' \<noteq> []" by (simp add: js_def)
    show "index (split (utf8_to_string ?pt7) 46) 1 =
              Some (to_base64 (hmac_sha256 sample_platform (utf8_bytes (SECRET_SIGNATURE_KEY sample_config))
                      (buffer_from_base64 (js ''e30!''))))"
      unfolding u7 buffer_from_base64_e30_bang using e7 asg by (intro split_signed(2)) simp_all
    show "atob (js ''e30!'') = Inl InvalidCharacterError" by (rule atob_e30_bang)
  qed
  note w7 = decode_failures_are_invalid_params
              [OF t7, THEN conjunct2, THEN conjunct2, THEN conjunct2, THEN conjunct2,
               THEN conjunct2, THEN conjunct2, THEN conjunct1, THEN mp, OF h7]

  let ?enc = "base64_encode [123]"
  let ?sg8 = "to_base64 (hmac_sha256 sample_platform (utf8_bytes (SECRET_SIGNATURE_KEY sample_config))
                (buffer_from_base64 ?enc))"
  have t8: "truthy (body_token ?r8)" "truthy (body_context ?r8)"
    using truthy_token [OF sample_platform_ok, of ?zero] by simp_all
  have d8: "decrypt_token sample_platform sample_config (body_token ?r8) (body_context ?r8)
              = (Inr ?pt8, calls_to_decrypt)"
    using sample_platform_ok decrypt_token_cipher [of sample_platform sample_config ?zero]
    by (simp add: platform_ok_def)
  have lt: "\<forall>x \<in> set [123 :: nat]. x < 256" by simp
  have e8: "\<forall>c \<in> set ?enc. c < 128 \<and> c \<noteq> 46" using lt by (rule base64_encode_ascii)
  have asg8: "\<forall>c \<in> set ?sg8. c < 128 \<and> c \<noteq> 46" by (rule to_base64_ascii)
  have sb: "signed_block sample_platform sample_config [123] = ?enc @ [46] @ ?sg8"
    by (simp add: signed_block_def js_dot)
  have "\<forall>c \<in> set (?enc @ [46] @ ?sg8). c < 128" using asg8 e8 by auto
  then have u8: "utf8_to_string ?pt8 = ?enc @ [46] @ ?sg8"
    unfolding sb by (rule utf8_round_trip_ascii)
  have p8: "JSON_parse sample_platform [123] = None"
    by (simp add: sample_platform_def sample_parse_def eval_nat_numeral skip_ws_def js_def Let_def)
  have h8: "decrypt_token sample_platform sample_config (body_token ?r8) (body_context ?r8)
              = (Inr ?pt8, calls_to_decrypt) \<and>
            index (split (utf8_to_string ?pt8) 46) 0 = Some ?enc \<and> ?enc \<noteq> [] \<and>
            index (split (utf8_to_string ?pt8) 46) 1 =
              Some (to_base64 (hmac_sha256 sample_platform (utf8_bytes (SECRET_SIGNATURE_KEY sample_config))
                      (buffer_from_base64 ?enc))) \<and>
            atob ?enc = Inr [123] \<and> JSON_parse sample_platform [123] = None"
  proof (intro conjI)
    show "decrypt_token sample_platform sample_config (body_token ?r8) (body_context ?r8)
              = (Inr ?pt8, calls_to_decrypt)" by (rule d8)
    show "index (split (utf8_to_string ?pt8) 46) 0 = Some ?enc"
      unfolding u8 using e8 asg8 by (intro split_signed(1)) simp_all
    show "?enc \<noteq> []" by simp
    show "index (split (utf8_to_string ?pt8) 46) 1 = Some ?sg8"
      unfolding u8 using e8 asg8 by (intro split_signed(2)) simp_all
    show "atob ?enc = Inr [123]" using lt by (rule atob_base64_encode)
    show "JSON_parse sample_platform [123] = None" by (rule p8)
  qed
  note w8 = decode_failures_are_invalid_params
              [OF t8, THEN conjunct2, THEN conjunct2, THEN conjunct2, THEN conjunct2,
               THEN conjunct2, THEN conjunct2, THEN conjunct2, THEN conjunct1, THEN mp, OF h8]
  note w9 = decode_failures_are_invalid_params
              [OF t3, THEN conjunct2, THEN conjunct2, THEN conjunct2, THEN conjunct2,
               THEN conjunct2, THEN conjunct2, THEN conjunct2, THEN conjunct2]
  from w1 w2 w3 w4 w5 w6 w7 w8 w9 show ?thesis by (intro conjI)
qed

subsection \<open>C7: a signature mismatch is Unauthorized, before any parsing\<close>

text \<open>
  Claim C7. For every decode input that decrypts successfully and splits into a non-empty
  \<open>encoded\<close> part, if the extracted signature differs from the recomputed HMAC then
  decode fails with exactly Unauthorized, at status 400, and the payload is neither
  decoded by \<^verbatim>\<open>atob\<close> nor parsed: the log ends with the computation of the digest.
\<close>

theorem signature_mismatch_is_unauthorized:
  assumes "truthy (body_token body)" "truthy (body_context body)"
    and "decrypt_token lib cfg (body_token body) (body_context body) = (Inr decrypted, l)"
    and "index (split (utf8_to_string decrypted) 46) 0 = Some encoded" "encoded \<noteq> []"
    and "index (split (utf8_to_string decrypted) 46) 1 \<noteq>
         Some (to_base64 (hmac_sha256 lib (utf8_bytes (SECRET_SIGNATURE_KEY cfg))
                 (buffer_from_base64 encoded)))"
  shows "decode lib cfg body = (Next_RouterError 400 ''Unauthorized'', calls_to_decrypt @ [Hmac_digest]) \<and>
         Atob \<notin> set (snd (decode lib cfg body)) \<and>
         JSON_parse_call \<notin> set (snd (decode lib cfg body))"
proof -
  have "decode lib cfg body = (Next_RouterError 400 ''Unauthorized'', l @ [Hmac_digest])"
    using decode_after_decrypt [OF assms(1-3)] verify_and_parse_mismatch [OF assms(4-6)]
    by simp
  moreover have "l = calls_to_decrypt"
    using assms(3) unfolding calls_to_decrypt_def by (rule decrypt_token_Inr)
  ultimately show ?thesis by (simp add: calls_to_decrypt_def)
qed

text \<open>The witness: a token that decrypts to the block \<^verbatim>\<open>e30=.AAAA\<close>, whose signature has
  4 characters where a digest has 44.\<close>

theorem signature_mismatch_is_unauthorized_witness:
  "decode sample_platform sample_config
     \<lparr>body_token = JString (to_base64 (cipher_update_final sample_platform
          (utf8_bytes (SECRET_ENCRYPTION_KEY sample_config)) (replicate 16 0)
          (utf8_bytes (js ''e30=.AAAA'')))),
      body_context = JString (to_hex (replicate 16 0))\<rparr>
   = (Next_RouterError 400 ''Unauthorized'',
      [Buffer_from_base64, Buffer_from_hex, CreateDecipheriv, Decipher_final, Hmac_digest])"
proof -
  let ?tok = "JString (to_base64 (cipher_update_final sample_platform
          (utf8_bytes (SECRET_ENCRYPTION_KEY sample_config)) (replicate 16 0)
          (utf8_bytes (js ''e30=.AAAA''))))"
  let ?ctx = "JString (to_hex (replicate 16 (0 :: byte)))"
  let ?b = "\<lparr>body_token = ?tok, body_context = ?ctx\<rparr>"
  have t: "truthy (body_token ?b)" "truthy (body_context ?b)"
    using truthy_token [OF sample_platform_ok, of "replicate 16 0"] by simp_all
  have d: "decrypt_token sample_platform sample_config (body_token ?b) (body_context ?b)
             = (Inr (utf8_bytes (js ''e30=.AAAA'')), calls_to_decrypt)"
    using sample_platform_ok decrypt_token_cipher [of sample_platform sample_config "replicate 16 0"]
    by (simp add: platform_ok_def)
  have u: "utf8_to_string (utf8_bytes (js ''e30=.AAAA'')) = js ''e30=.AAAA''"
    by (rule utf8_round_trip_ascii) (simp add: js_def)
  have i0: "index (split (utf8_to_string (utf8_bytes (js ''e30=.AAAA''))) 46) 0 = Some (js ''e30='')"
    unfolding u by (simp add: index_def js_def)
  have i1: "index (split (utf8_to_string (utf8_bytes (js ''e30=.AAAA''))) 46) 1 = Some (js ''AAAA'')"
    unfolding u by (simp add: index_def js_def)
  have len: "length (to_base64 (hmac_sha256 sample_platform (utf8_bytes (SECRET_SIGNATURE_KEY sample_config))
          (buffer_from_base64 (js ''e30='')))) = 44"
    using sample_platform_ok by (simp add: length_to_base64 platform_ok_def)
  have "js ''AAAA'' \<noteq>
      to_base64 (hmac_sha256 sample_platform (utf8_bytes (SECRET_SIGNATURE_KEY sample_config))
          (buffer_from_base64 (js ''e30='')))"
  proof
    assume "js ''AAAA'' =
      to_base64 (hmac_sha256 sample_platform (utf8_bytes (SECRET_SIGNATURE_KEY sample_config))
          (buffer_from_base64 (js ''e30='')))"
    then have "length (js ''AAAA'') = 44" using len by simp
    then show False by (simp add: js_def)
  qed
  then have ne: "index (split (utf8_to_string (utf8_bytes (js ''e30=.AAAA''))) 46) 1 \<noteq>
      Some (to_base64 (hmac_sha256 sample_platform (utf8_bytes (SECRET_SIGNATURE_KEY sample_config))
          (buffer_from_base64 (js ''e30=''))))"
    unfolding i1 by simp
  have e: "js ''e30='' \<noteq> []" by (simp add: js_def)
  show ?thesis
    using signature_mismatch_is_unauthorized [OF t d i0 e ne]
    by (simp add: calls_to_decrypt_def)
qed

subsection \<open>C8: how the plaintext is split\<close>

text \<open>
  Claim C8, as amended. Decode splits the decrypted plaintext at every \<^verbatim>\<open>.\<close>:
  \<open>encoded\<close> is the text before the first \<^verbatim>\<open>.\<close>, and \<open>signature\<close>, which decode compares
  with the recomputed HMAC, is the text between the first \<^verbatim>\<open>.\<close> and the second (all of
  the remainder when there is no second one, and undefined when the plaintext holds no
  \<^verbatim>\<open>.\<close>); what follows a second \<^verbatim>\<open>.\<close> is ignored. Decode fails with InvalidParams when
  \<open>encoded\<close> is empty. The theorem gives, in these terms, the outcome of decode for every
  request whose token decrypts.
\<close>

theorem decode_parts:
  assumes "truthy (body_token request)" and "truthy (body_context request)"
    and "decrypt_token lib cfg (body_token request) (body_context request) = (Inr decrypted, l)"
  shows "decode lib cfg request =
     (let plaintext = utf8_to_string decrypted;
          encoded = takeWhile (\<lambda>c. c \<noteq> 46) plaintext;
          signature = (if 46 \<in> set plaintext
                       then Some (takeWhile (\<lambda>c. c \<noteq> 46) (tl (dropWhile (\<lambda>c. c \<noteq> 46) plaintext)))
                       else None);
          calculated = to_base64 (hmac_sha256 lib (utf8_bytes (SECRET_SIGNATURE_KEY cfg))
                                    (buffer_from_base64 encoded))
      in if encoded = [] then (Next_RouterError 400 ''InvalidParams'', l)
         else if signature \<noteq> Some calculated
           then (Next_RouterError 400 ''Unauthorized'', l @ [Hmac_digest])
         else case atob encoded of
                Inl e \<Rightarrow> (Next_RouterError 400 ''InvalidParams'', l @ [Hmac_digest, Atob])
              | Inr decoded_text \<Rightarrow>
                  (case JSON_parse lib decoded_text of
                     None \<Rightarrow> (Next_RouterError 400 ''InvalidParams'',
                               l @ [Hmac_digest, Atob, JSON_parse_call])
                   | Some v \<Rightarrow> (Send 200 v, l @ [Hmac_digest, Atob, JSON_parse_call])))"
  using assms by (rule decode_explicit)

text \<open>The witness: a token that decrypts to \<^verbatim>\<open>e30=.AAAA.\<close> followed by the digest of
  \<^verbatim>\<open>{}\<close>, whose signature is \<^verbatim>\<open>AAAA\<close> (the digest after the second \<^verbatim>\<open>.\<close> is not looked
  at), and a token that decrypts to \<^verbatim>\<open>.AAAA\<close>, whose \<open>encoded\<close> part is empty.\<close>

theorem decode_parts_witness:
  "decode sample_platform sample_config
     \<lparr>body_token = JString (to_base64 (cipher_update_final sample_platform
          (utf8_bytes (SECRET_ENCRYPTION_KEY sample_config)) (replicate 16 0)
          (utf8_bytes (js ''e30=.AAAA.'' @
             to_base64 (hmac_sha256 sample_platform
                          (utf8_bytes (SECRET_SIGNATURE_KEY sample_config)) [123, 125]))))),
      body_context = JString (to_hex (replicate 16 0))\<rparr>
   = (Next_RouterError 400 ''Unauthorized'',
      [Buffer_from_base64, Buffer_from_hex, CreateDecipheriv, Decipher_final, Hmac_digest]) \<and>
   decode sample_platform sample_config
     \<lparr>body_token = JString (to_base64 (cipher_update_final sample_platform
          (utf8_bytes (SECRET_ENCRYPTION_KEY sample_config)) (replicate 16 0)
          (utf8_bytes (js ''.AAAA'')))),
      body_context = JString (to_hex (replicate 16 0))\<rparr>
   = (Next_RouterError 400 ''InvalidParams'',
      [Buffer_from_base64, Buffer_from_hex, CreateDecipheriv, Decipher_final])"
proof -
  let ?key = "utf8_bytes (SECRET_ENCRYPTION_KEY sample_config)"
  let ?zero = "replicate 16 (0 :: byte)"
  let ?ctx = "JString (to_hex ?zero)"
  let ?sg = "to_base64 (hmac_sha256 sample_platform (utf8_bytes (SECRET_SIGNATURE_KEY sample_config)) [123, 125])"
  let ?pt1 = "utf8_bytes (js ''e30=.AAAA.'' @ ?sg)"
  let ?pt2 = "utf8_bytes (js ''.AAAA'')"
  let ?r1 = "\<lparr>body_token = JString (to_base64 (cipher_update_final sample_platform ?key ?zero ?pt1)),
              body_context = ?ctx\<rparr>"
  let ?r2 = "\<lparr>body_token = JString (to_base64 (cipher_update_final sample_platform ?key ?zero ?pt2)),
              body_context = ?ctx\<rparr>"
  have asg: "\<forall>c \<in> set ?sg. c < 128 \<and> c \<noteq> 46" by (rule to_base64_ascii)
  have t1: "truthy (body_token ?r1)" "truthy (body_context ?r1)"
    using truthy_token [OF sample_platform_ok, of ?zero] by simp_all
  have d1: "decrypt_token sample_platform sample_config (body_token ?r1) (body_context ?r1)
              = (Inr ?pt1, calls_to_decrypt)"
    using sample_platform_ok decrypt_token_cipher [of sample_platform sample_config ?zero]
    by (simp add: platform_ok_def)
  have j1: "js ''e30=.AAAA.'' @ ?sg = js ''e30='' @ 46 # js ''AAAA'' @ 46 # ?sg"
    by (simp add: js_def)
  have "\<forall>c \<in> set (js ''e30=.AAAA.'' @ ?sg). c < 128" using asg by (auto simp: js_def)
  then have u1: "utf8_to_string ?pt1 = js ''e30='' @ 46 # js ''AAAA'' @ 46 # ?sg"
    unfolding j1 [symmetric] by (rule utf8_round_trip_ascii)
  have e1: "\<forall>c \<in> set (js ''e30=''). c \<noteq> 46" "\<forall>c \<in> set (js ''AAAA''). c \<noteq> 46"
    by (simp_all add: js_def)
  have n1: "js ''e30='' \<noteq> []" by (simp add: js_def)
  have "length (js ''AAAA'') \<noteq>
        length (to_base64 (hmac_sha256 sample_platform (utf8_bytes (SECRET_SIGNATURE_KEY sample_config))
                  (buffer_from_base64 (js ''e30=''))))"
    unfolding digest_length by (simp add: js_def)
  then have m1: "js ''AAAA'' \<noteq>
        to_base64 (hmac_sha256 sample_platform (utf8_bytes (SECRET_SIGNATURE_KEY sample_config))
                  (buffer_from_base64 (js ''e30='')))"
    by auto
  have w1: "decode sample_platform sample_config ?r1
              = (Next_RouterError 400 ''Unauthorized'',
                 [Buffer_from_base64, Buffer_from_hex, CreateDecipheriv, Decipher_final, Hmac_digest])"
    using decode_parts [OF t1 d1] m1 unfolding u1
    by (simp add: Let_def parts_of_text_more(1,2,4) [OF e1] n1 calls_to_decrypt_def)
  have t2: "truthy (body_token ?r2)" "truthy (body_context ?r2)"
    using truthy_token [OF sample_platform_ok, of ?zero] by simp_all
  have d2: "decrypt_token sample_platform sample_config (body_token ?r2) (body_context ?r2)
              = (Inr ?pt2, calls_to_decrypt)"
    using sample_platform_ok decrypt_token_cipher [of sample_platform sample_config ?zero]
    by (simp add: platform_ok_def)
  have u2: "utf8_to_string ?pt2 = js ''.AAAA''"
    by (rule utf8_round_trip_ascii) (simp add: js_def)
  have k2: "takeWhile (\<lambda>c. c \<noteq> 46) (js ''.AAAA'') = []" by (simp add: js_def)
  have w2: "decode sample_platform sample_config ?r2
              = (Next_RouterError 400 ''InvalidParams'',
                 [Buffer_from_base64, Buffer_from_hex, CreateDecipheriv, Decipher_final])"
    using decode_parts [OF t2 d2] unfolding u2
    by (simp add: Let_def k2 calls_to_decrypt_def)
  from w1 w2 show ?thesis by (intro conjI)
qed

text \<open>The counterexample to the claim as first stated (the signature is the remainder after
  the first \<^verbatim>\<open>.\<close>): the plaintext is the signed block of \<^verbatim>\<open>{}\<close> followed by \<^verbatim>\<open>.c\<close>. The
  remainder after its first \<^verbatim>\<open>.\<close> is the digest followed by \<^verbatim>\<open>.c\<close>, which is not the
  digest, so that with the remainder as signature the comparison of line 97 would fail;
  decode compares the text before the second \<^verbatim>\<open>.\<close>, and succeeds.\<close>

theorem decode_parts_counterexample:
  "decrypt_token sample_platform sample_config
     (JString (to_base64 (cipher_update_final sample_platform
          (utf8_bytes (SECRET_ENCRYPTION_KEY sample_config)) (replicate 16 0)
          (utf8_bytes (signed_block sample_platform sample_config [123, 125] @ js ''.c'')))))
     (JString (to_hex (replicate 16 0)))
   = (Inr (utf8_bytes (signed_block sample_platform sample_config [123, 125] @ js ''.c'')),
      calls_to_decrypt) \<and>
   utf8_to_string (utf8_bytes (signed_block sample_platform sample_config [123, 125] @ js ''.c''))
     = signed_block sample_platform sample_config [123, 125] @ js ''.c'' \<and>
   takeWhile (\<lambda>c. c \<noteq> 46) (signed_block sample_platform sample_config [123, 125] @ js ''.c'')
     = js ''e30='' \<and>
   signature_by_spec (signed_block sample_platform sample_config [123, 125] @ js ''.c'')
     = to_base64 (hmac_sha256 sample_platform (utf8_bytes (SECRET_SIGNATURE_KEY sample_config))
                    (buffer_from_base64 (js ''e30=''))) @ js ''.c'' \<and>
   signature_by_spec (signed_block sample_platform sample_config [123, 125] @ js ''.c'')
     \<noteq> to_base64 (hmac_sha256 sample_platform (utf8_bytes (SECRET_SIGNATURE_KEY sample_config))
                    (buffer_from_base64 (js ''e30=''))) \<and>
   decode sample_platform sample_config
     \<lparr>body_token = JString (to_base64 (cipher_update_final sample_platform
          (utf8_bytes (SECRET_ENCRYPTION_KEY sample_config)) (replicate 16 0)
          (utf8_bytes (signed_block sample_platform sample_config [123, 125] @ js ''.c'')))),
      body_context = JString (to_hex (replicate 16 0))\<rparr>
   = (Send 200 (Jobj []),
      [Buffer_from_base64, Buffer_from_hex, CreateDecipheriv, Decipher_final, Hmac_digest, Atob,
       JSON_parse_call])"
proof -
  let ?key = "utf8_bytes (SECRET_ENCRYPTION_KEY sample_config)"
  let ?zero = "replicate 16 (0 :: byte)"
  let ?sg = "to_base64 (hmac_sha256 sample_platform (utf8_bytes (SECRET_SIGNATURE_KEY sample_config)) [123, 125])"
  let ?text = "signed_block sample_platform sample_config [123, 125] @ js ''.c''"
  let ?pt = "utf8_bytes ?text"
  let ?r = "\<lparr>body_token = JString (to_base64 (cipher_update_final sample_platform ?key ?zero ?pt)),
             body_context = JString (to_hex ?zero)\<rparr>"
  have asg: "\<forall>c \<in> set ?sg. c < 128 \<and> c \<noteq> 46" by (rule to_base64_ascii)
  have tx: "?text = js ''e30='' @ 46 # ?sg @ 46 # js ''c''"
    unfolding signed_block_braces_js by (simp add: js_def)
  have t: "truthy (body_token ?r)" "truthy (body_context ?r)"
    using truthy_token [OF sample_platform_ok, of ?zero] by simp_all
  have d: "decrypt_token sample_platform sample_config (body_token ?r) (body_context ?r)
             = (Inr ?pt, calls_to_decrypt)"
    using sample_platform_ok decrypt_token_cipher [of sample_platform sample_config ?zero]
    by (simp add: platform_ok_def)
  have "\<forall>c \<in> set ?text. c < 128" unfolding tx using asg by (auto simp: js_def)
  then have u: "utf8_to_string ?pt = ?text" by (rule utf8_round_trip_ascii)
  have e: "\<forall>c \<in> set (js ''e30=''). c \<noteq> 46" "\<forall>c \<in> set ?sg. c \<noteq> 46"
    using asg by (simp_all add: js_def)
  note parts = parts_of_text_more [OF e, of "js ''c''"]
  have n: "js ''e30='' \<noteq> []" by (simp add: js_def)
  have p: "JSON_parse sample_platform [123, 125] = Some (Jobj [])"
    using sample_parse_empty_object by (simp add: sample_platform_def)
  have c1: "decrypt_token sample_platform sample_config
     (JString (to_base64 (cipher_update_final sample_platform ?key ?zero ?pt)))
     (JString (to_hex ?zero)) = (Inr ?pt, calls_to_decrypt)"
    using d by simp
  have c3: "takeWhile (\<lambda>c. c \<noteq> 46) ?text = js ''e30=''"
    unfolding tx by (rule parts(1))
  have c4: "signature_by_spec ?text =
      to_base64 (hmac_sha256 sample_platform (utf8_bytes (SECRET_SIGNATURE_KEY sample_config))
                    (buffer_from_base64 (js ''e30=''))) @ js ''.c''"
    unfolding signature_by_spec_def tx parts(3) buffer_from_base64_e30 by (simp add: js_def)
  have c5: "signature_by_spec ?text \<noteq>
      to_base64 (hmac_sha256 sample_platform (utf8_bytes (SECRET_SIGNATURE_KEY sample_config))
                    (buffer_from_base64 (js ''e30='')))"
    unfolding c4 by (simp add: js_def)
  have m: "46 \<in> set (js ''.c'')" by (simp add: js_def)
  have sg: "takeWhile (\<lambda>c. c \<noteq> 46) (tl (dropWhile (\<lambda>c. c \<noteq> 46) ?text)) = ?sg"
    unfolding tx by (rule parts(4))
  have c6: "decode sample_platform sample_config ?r
     = (Send 200 (Jobj []),
        [Buffer_from_base64, Buffer_from_hex, CreateDecipheriv, Decipher_final, Hmac_digest, Atob,
         JSON_parse_call])"
    unfolding decode_explicit [OF t d] u
    by (simp add: Let_def c3 m sg n buffer_from_base64_e30 atob_e30 p calls_to_decrypt_def)
  from c1 u c3 c4 c5 c6 show ?thesis by (intro conjI)
qed

subsection \<open>C9: what encode does on failure\<close>

text \<open>
  Claim C9 says that encode has no error condition for any JSON-serializable payload, and
  that where it fails it does so with a structured error and not with an uncaught
  exception. The encode handler (lines 25 to 42) has no \<^verbatim>\<open>try\<close> block and sends no error
  response. For the payload \<^verbatim>\<open>{"city": "..."}\<close> with the two characters U+6771 and
  U+4EAC, which \<^verbatim>\<open>JSON.stringify\<close> serializes, \<^verbatim>\<open>btoa\<close> throws in line 27 and its
  InvalidCharacterError leaves the handler: an error condition on a JSON-serializable
  payload, and an uncaught exception. It is the defect of line 27 that breaks the round
  trip of C1.
\<close>

theorem encode_throws_on_serializable_payload:
  "JSON_stringify sample_platform (Jobj [(js ''city'', Jstr [26481, 20140])])
     = Some [123, 34, 99, 105, 116, 121, 34, 58, 34, 26481, 20140, 34, 125] \<and>
   encode sample_platform sample_config (replicate 16 0) (Jobj [(js ''city'', Jstr [26481, 20140])])
     = Throws InvalidCharacterError"
proof -
  have s: "JSON_stringify sample_platform (Jobj [(js ''city'', Jstr [26481, 20140])])
     = Some [123, 34, 99, 105, 116, 121, 34, 58, 34, 26481, 20140, 34, 125]"
    by (simp add: sample_platform_def js_def quote_def escape_char_def)
  have "encode sample_platform sample_config (replicate 16 0) (Jobj [(js ''city'', Jstr [26481, 20140])])
     = Throws InvalidCharacterError"
    using s by (rule encode_not_latin1) simp
  with s show ?thesis by simp
qed

subsection \<open>C10: a plaintext without delimiter\<close>

text \<open>
  Claim C10, as amended. For every decode input that decrypts successfully to a
  non-empty plaintext containing no \<^verbatim>\<open>.\<close> at all, the result is Unauthorized (status
  400), not InvalidParams: the whole plaintext is \<open>encoded\<close>, the signature is undefined,
  and the comparison of the signatures fails.
\<close>

theorem no_delimiter_is_unauthorized:
  assumes "truthy (body_token body)" "truthy (body_context body)"
    and "decrypt_token lib cfg (body_token body) (body_context body) = (Inr decrypted, l)"
    and "46 \<notin> set (utf8_to_string decrypted)" "decrypted \<noteq> []"
  shows "fst (decode lib cfg body) = Next_RouterError 400 ''Unauthorized''"
proof -
  have s: "split (utf8_to_string decrypted) 46 = [utf8_to_string decrypted]"
    using assms(4) by (rule split_no_sep)
  have "verify_and_parse lib cfg decrypted = (Inr (Next_RouterError 400 ''Unauthorized''), [Hmac_digest])"
    by (rule verify_and_parse_mismatch [where enc = "utf8_to_string decrypted"])
       (simp_all add: s index_def utf8_to_string_not_Nil assms(5))
  with decode_after_decrypt [OF assms(1-3)] show ?thesis by simp
qed

text \<open>The witness: a token that decrypts to \<^verbatim>\<open>e30\<close>.\<close>

theorem no_delimiter_is_unauthorized_witness:
  "fst (decode sample_platform sample_config
     \<lparr>body_token = JString (to_base64 (cipher_update_final sample_platform
          (utf8_bytes (SECRET_ENCRYPTION_KEY sample_config)) (replicate 16 0)
          (utf8_bytes (js ''e30'')))),
      body_context = JString (to_hex (replicate 16 0))\<rparr>)
   = Next_RouterError 400 ''Unauthorized''"
proof -
  let ?tok = "JString (to_base64 (cipher_update_final sample_platform
          (utf8_bytes (SECRET_ENCRYPTION_KEY sample_config)) (replicate 16 0)
          (utf8_bytes (js ''e30''))))"
  let ?ctx = "JString (to_hex (replicate 16 (0 :: byte)))"
  let ?b = "\<lparr>body_token = ?tok, body_context = ?ctx\<rparr>"
  have t: "truthy (body_token ?b)" "truthy (body_context ?b)"
    using truthy_token [OF sample_platform_ok, of "replicate 16 0"] by simp_all
  have d: "decrypt_token sample_platform sample_config (body_token ?b) (body_context ?b)
             = (Inr (utf8_bytes (js ''e30'')), calls_to_decrypt)"
    using sample_platform_ok decrypt_token_cipher [of sample_platform sample_config "replicate 16 0"]
    by (simp add: platform_ok_def)
  have u: "utf8_to_string (utf8_bytes (js ''e30'')) = js ''e30''"
    by (rule utf8_round_trip_ascii) (simp add: js_def)
  have n: "46 \<notin> set (utf8_to_string (utf8_bytes (js ''e30'')))"
    unfolding u by (simp add: js_def)
  have e: "utf8_bytes (js ''e30'') \<noteq> []"
    by (simp add: js_def utf8_of_code_point_def)
  show ?thesis
    using no_delimiter_is_unauthorized [OF t d n e] .
qed

text \<open>The counterexample to the claim as first stated (every plaintext without
  \<^verbatim>\<open>.\<close>): the token of the empty plaintext decrypts successfully, its plaintext holds no
  \<^verbatim>\<open>.\<close>, and the result is InvalidParams.\<close>

theorem no_delimiter_counterexample:
  "decrypt_token sample_platform sample_config
     (JString (to_base64 (cipher_update_final sample_platform
          (utf8_bytes (SECRET_ENCRYPTION_KEY sample_config)) (replicate 16 0) [])))
     (JString (to_hex (replicate 16 0)))
   = (Inr [], calls_to_decrypt) \<and>
   46 \<notin> set (utf8_to_string []) \<and>
   fst (decode sample_platform sample_config
     \<lparr>body_token = JString (to_base64 (cipher_update_final sample_platform
          (utf8_bytes (SECRET_ENCRYPTION_KEY sample_config)) (replicate 16 0) [])),
      body_context = JString (to_hex (replicate 16 0))\<rparr>)
   = Next_RouterError 400 ''InvalidParams''"
proof -
  have d: "decrypt_token sample_platform sample_config
     (JString (to_base64 (cipher_update_final sample_platform
          (utf8_bytes (SECRET_ENCRYPTION_KEY sample_config)) (replicate 16 0) [])))
     (JString (to_hex (replicate 16 0))) = (Inr [], calls_to_decrypt)"
    using sample_platform_ok decrypt_token_cipher [of sample_platform sample_config "replicate 16 0"]
    by (simp add: platform_ok_def)
  have v: "verify_and_parse sample_platform sample_config []
             = (Inr (Next_RouterError 400 ''InvalidParams''), [])"
    by (rule verify_and_parse_empty) simp
  show ?thesis
    using d by (simp add: decode_of_cipher [OF sample_platform_ok] v)
qed

end
